theory Spec2Isabelle
  imports Complex_Main "HOL-Library.Multiset"
begin

section \<open>Planning side: grid and shortest-path search (esp32\_code/Dijkstra.py)\<close>

text \<open>
  Python exceptions are values of \<open>error\<close>; a function that may raise returns
  \<open>error + 'a\<close> with \<open>Inl\<close> for the exception. Python integers are \<open>int\<close>.
  \<open>print\<close> calls and the counter \<open>nodes_explored_count\<close>, which only feeds a
  \<open>print\<close>, are left out.
\<close>

datatype error = IndexError | KeyError | ValueError | TypeError

type_synonym cell = "int \<times> int"
type_synonym grid = "int list list"

definition GRID_ROWS :: int where "GRID_ROWS = 15"
definition GRID_COLS :: int where "GRID_COLS = 21"

definition grid_map :: grid where
  "grid_map =
   [[1,1,1,1,1,1,1,1,1,1,1,1,1,1,0,1,0,1,0,1,0],
    [1,1,1,1,1,1,1,1,1,1,1,1,1,1,0,1,0,1,0,1,0],
    [0,0,0,0,0,0,0,0,0,0,0,0,0,0,0,0,0,0,0,0,0],
    [0,1,1,1,1,1,1,1,1,1,0,1,1,1,1,1,1,1,1,1,0],
    [0,1,1,1,1,1,1,1,1,1,0,1,1,1,1,1,1,1,1,1,0],
    [0,0,0,0,0,0,0,0,0,0,0,1,1,1,1,1,1,1,1,1,0],
    [0,1,1,1,1,1,1,1,1,1,0,1,1,1,1,1,1,1,1,1,0],
    [0,0,0,0,0,0,0,0,0,0,0,0,0,0,0,0,0,0,0,0,0],
    [0,1,1,1,1,1,1,1,1,1,0,1,1,1,1,1,1,1,1,1,0],
    [0,1,1,1,1,1,1,1,1,1,0,0,0,0,0,0,0,0,0,0,0],
    [0,1,1,1,1,1,1,1,1,1,0,1,1,1,1,1,1,1,1,1,0],
    [0,1,1,1,1,1,1,1,1,1,0,1,1,1,1,1,1,1,1,1,0],
    [0,0,0,0,0,0,0,0,0,0,0,0,0,0,0,0,0,0,0,0,0],
    [0,1,0,1,0,1,0,1,1,1,1,1,1,1,1,1,1,1,1,1,1],
    [0,1,0,1,0,1,0,1,1,1,1,1,1,1,1,1,1,1,1,1,1]]"

text \<open>Python list indexing \<open>xs[i]\<close>: a negative index counts from the end, an
  index out of range raises \<open>IndexError\<close>.\<close>

definition py_index :: "'a list \<Rightarrow> int \<Rightarrow> error + 'a" where
  "py_index xs i =
     (if 0 \<le> i \<and> i < int (length xs) then Inr (xs ! nat i)
      else if - int (length xs) \<le> i \<and> i < 0 then Inr (xs ! nat (int (length xs) + i))
      else Inl IndexError)"

text \<open>\<open>grid[r][c]\<close>.\<close>

definition grid_at :: "grid \<Rightarrow> int \<Rightarrow> int \<Rightarrow> error + int" where
  "grid_at g r c = (case py_index g r of Inl e \<Rightarrow> Inl e | Inr row \<Rightarrow> py_index row c)"

subsection \<open>SimplePriorityQueue\<close>

text \<open>The queue is the list \<open>_queue\<close> of (item, priority) entries. \<open>put\<close> appends
  and sorts by priority; Python's \<open>list.sort\<close> is stable, as \<open>sort_key\<close> is.\<close>

type_synonym pqueue = "(cell \<times> int) list"

definition put :: "pqueue \<Rightarrow> cell \<Rightarrow> int \<Rightarrow> pqueue" where
  "put q item priority = sort_key snd (q @ [(item, priority)])"

definition is_empty :: "pqueue \<Rightarrow> bool" where
  "is_empty q = (length q = 0)"

text \<open>\<open>get\<close> returns the popped item (\<open>None\<close> on an empty queue) and the rest.\<close>

definition get :: "pqueue \<Rightarrow> cell option \<times> pqueue" where
  "get q = (if \<not> is_empty q then (Some (fst (hd q)), tl q) else (None, q))"

subsection \<open>get\_valid\_neighbors\<close>

text \<open>The \<open>for\<close> loop over the four directions; the condition is evaluated left to
  right, so \<open>grid[nr][nc]\<close> is read only inside the bounds \<open>rows\<close>, \<open>cols\<close>.\<close>

fun neighbors_loop ::
  "int \<Rightarrow> int \<Rightarrow> int \<Rightarrow> int \<Rightarrow> grid \<Rightarrow> (int \<times> int) list \<Rightarrow> error + (cell \<times> int) list" where
  "neighbors_loop r c rows cols grid [] = Inr []"
| "neighbors_loop r c rows cols grid ((dr, dc) # ds) =
     (let nr = r + dr; nc = c + dc in
      if 0 \<le> nr \<and> nr < rows \<and> 0 \<le> nc \<and> nc < cols then
        (case grid_at grid nr nc of
           Inl e \<Rightarrow> Inl e
         | Inr v \<Rightarrow>
             (case neighbors_loop r c rows cols grid ds of
                Inl e \<Rightarrow> Inl e
              | Inr ns \<Rightarrow> Inr (if v = 0 then ((nr, nc), 1) # ns else ns)))
      else neighbors_loop r c rows cols grid ds)"

definition get_valid_neighbors ::
  "int \<Rightarrow> int \<Rightarrow> int \<Rightarrow> int \<Rightarrow> grid \<Rightarrow> error + (cell \<times> int) list" where
  "get_valid_neighbors r c rows cols grid =
     neighbors_loop r c rows cols grid [(0, 1), (0, -1), (1, 0), (-1, 0)]"

subsection \<open>dijkstra\<close>

text \<open>The search state: the queue and the dictionaries \<open>came_from\<close> (whose value for
  the start node is Python's \<open>None\<close>) and \<open>cost_so_far\<close>.\<close>

record dstate =
  pq :: pqueue
  came_from :: "cell \<rightharpoonup> cell option"
  cost_so_far :: "cell \<rightharpoonup> int"

text \<open>The inner \<open>for next_node, cost in get_valid_neighbors(...)\<close> loop.
  \<open>cost_so_far[current_node]\<close> raises \<open>KeyError\<close> on a missing key.\<close>

fun relax :: "cell \<Rightarrow> (cell \<times> int) list \<Rightarrow> dstate \<Rightarrow> error + dstate" where
  "relax current_node [] st = Inr st"
| "relax current_node ((next_node, cost) # ns) st =
     (case cost_so_far st current_node of
        None \<Rightarrow> Inl KeyError
      | Some cc \<Rightarrow>
          (let new_cost = cc + cost in
           if (case cost_so_far st next_node of None \<Rightarrow> True | Some old \<Rightarrow> new_cost < old)
           then relax current_node ns
                  (st\<lparr>cost_so_far := (cost_so_far st)(next_node \<mapsto> new_cost),
                      pq := put (pq st) next_node new_cost,
                      came_from := (came_from st)(next_node \<mapsto> Some current_node)\<rparr>)
           else relax current_node ns st))"

text \<open>One pass of the \<open>while not pq.is_empty()\<close> body after the \<open>break\<close> test:
  the neighbours of the popped node are relaxed.\<close>

definition expand :: "grid \<Rightarrow> int \<Rightarrow> int \<Rightarrow> cell \<Rightarrow> dstate \<Rightarrow> error + dstate" where
  "expand grid rows cols current_node st =
     (case get_valid_neighbors (fst current_node) (snd current_node) rows cols grid of
        Inl e \<Rightarrow> Inl e
      | Inr ns \<Rightarrow> relax current_node ns st)"

text \<open>The \<open>while\<close> loop. It returns \<open>path_found\<close> and the final state; a loop that
  does not return is the value \<open>None\<close>. Indexing the \<open>None\<close> that \<open>get\<close> returns on an
  empty queue would raise \<open>TypeError\<close>.\<close>

partial_function (option) search ::
  "grid \<Rightarrow> int \<Rightarrow> int \<Rightarrow> cell \<Rightarrow> dstate \<Rightarrow> (error + bool \<times> dstate) option" where
  "search grid rows cols end_node st =
     (if is_empty (pq st) then Some (Inr (False, st))
      else
        (case get (pq st) of
           (None, q) \<Rightarrow> Some (Inl TypeError)
         | (Some current_node, q) \<Rightarrow>
             (let st1 = st\<lparr>pq := q\<rparr> in
              if current_node = end_node then Some (Inr (True, st1))
              else
                (case expand grid rows cols current_node st1 of
                   Inl e \<Rightarrow> Some (Inl e)
                 | Inr st2 \<Rightarrow> search grid rows cols end_node st2))))"

declare search.simps [code]

text \<open>The path reconstruction loop \<open>while node is not None\<close>;
  \<open>came_from.get(node)\<close> is \<open>None\<close> for a missing key and for the stored \<open>None\<close>.\<close>

definition dict_get :: "('k \<rightharpoonup> 'v option) \<Rightarrow> 'k \<Rightarrow> 'v option" where
  "dict_get d k = (case d k of None \<Rightarrow> None | Some v \<Rightarrow> v)"

partial_function (option) reconstruct ::
  "(cell \<rightharpoonup> cell option) \<Rightarrow> cell option \<Rightarrow> cell list \<Rightarrow> cell list option" where
  "reconstruct came node path =
     (case node of
        None \<Rightarrow> Some path
      | Some n \<Rightarrow> reconstruct came (dict_get came n) (path @ [n]))"

declare reconstruct.simps [code]

text \<open>The endpoint validation
  \<open>0 <= n[0] < rows and 0 <= n[1] < cols and grid[n[0]][n[1]] == 0\<close>.\<close>

definition node_valid :: "grid \<Rightarrow> int \<Rightarrow> int \<Rightarrow> cell \<Rightarrow> error + bool" where
  "node_valid grid rows cols n =
     (if 0 \<le> fst n \<and> fst n < rows \<and> 0 \<le> snd n \<and> snd n < cols then
        (case grid_at grid (fst n) (snd n) of Inl e \<Rightarrow> Inl e | Inr v \<Rightarrow> Inr (v = 0))
      else Inr False)"

definition dijkstra_body ::
  "grid \<Rightarrow> int \<Rightarrow> int \<Rightarrow> cell \<Rightarrow> cell \<Rightarrow> (error + cell list) option" where
  "dijkstra_body grid rows cols start_node end_node =
     (case search grid rows cols end_node
             \<lparr>pq = put [] start_node 0,
              came_from = [start_node \<mapsto> None],
              cost_so_far = [start_node \<mapsto> 0]\<rparr> of
        None \<Rightarrow> None
      | Some (Inl e) \<Rightarrow> Some (Inl e)
      | Some (Inr (path_found, st)) \<Rightarrow>
          (if \<not> path_found then Some (Inr [])
           else
             (case reconstruct (came_from st) (Some end_node) [] of
                None \<Rightarrow> None
              | Some p \<Rightarrow>
                  (let path = rev p in
                   case py_index path 0 of
                     Inl e \<Rightarrow> Some (Inl e)
                   | Inr first \<Rightarrow>
                       if first \<noteq> start_node then Some (Inr []) else Some (Inr path)))))"

definition dijkstra :: "grid \<Rightarrow> cell \<Rightarrow> cell \<Rightarrow> (error + cell list) option" where
  "dijkstra grid start_node end_node =
     (case py_index grid 0 of
        Inl e \<Rightarrow> Some (Inl e)
      | Inr row0 \<Rightarrow>
          (let rows = int (length grid); cols = int (length row0) in
           case node_valid grid rows cols start_node of
             Inl e \<Rightarrow> Some (Inl e)
           | Inr ok_start \<Rightarrow>
               if \<not> ok_start then Some (Inr [])
               else
                 (case node_valid grid rows cols end_node of
                    Inl e \<Rightarrow> Some (Inl e)
                  | Inr ok_end \<Rightarrow>
                      if \<not> ok_end then Some (Inr [])
                      else dijkstra_body grid rows cols start_node end_node)))"


section \<open>Planning side: path tracking and action translation (esp32\_code/Dijkstra.py)\<close>

text \<open>
  The module-level globals of the planning loop. A position is a (row, col) tuple or
  Python's \<open>None\<close>; \<open>conn\<close> records whether a client connection is held.
\<close>

record pstate =
  current_robot_grid_pos_actual :: "cell option"
  current_robot_grid_pos_path :: "cell option"
  goal_grid_pos :: "cell option"
  planned_path :: "cell list"
  current_path_index :: int
  path_needs_replan :: bool
  last_replan_time :: int
  conn :: bool

definition REPLAN_INTERVAL_MS :: int where "REPLAN_INTERVAL_MS = 1000"

definition initial_pstate :: pstate where
  "initial_pstate =
     \<lparr>current_robot_grid_pos_actual = None, current_robot_grid_pos_path = None,
      goal_grid_pos = None, planned_path = [], current_path_index = 0,
      path_needs_replan = True, last_replan_time = 0, conn = False\<rparr>"

text \<open>
  The float computations of the planning side go through library functions of the
  platform (\<open>math.sin\<close>, \<open>math.cos\<close>, \<open>math.atan2\<close>, \<open>math.pi\<close>, \<open>math.radians\<close>,
  float literals and \<open>time.ticks_diff\<close>), which are not part of the repository. They are
  parameters of the model: \<open>'f\<close> is the type of floats, with subtraction, negation,
  division, \<open>abs\<close> and the comparison \<open><\<close> as operations without any assumed law.
\<close>

record 'f pylib =
  m_float :: "int \<Rightarrow> 'f"
  m_pi :: "'f"
  m_sin :: "'f \<Rightarrow> 'f"
  m_cos :: "'f \<Rightarrow> 'f"
  m_atan2 :: "'f \<Rightarrow> 'f \<Rightarrow> 'f"
  m_radians :: "'f \<Rightarrow> 'f"
  ticks_diff :: "int \<Rightarrow> int \<Rightarrow> int"

text \<open>A decoded \<open>webots_status\<close> message.\<close>

record 'f status =
  robot_grid_pos :: cell
  status_goal_grid_pos :: cell
  theta_rad :: "'f"
  sensors_binary :: "int list"

text \<open>The \<open>esp32_command\<close> message sent back.\<close>

record command =
  action :: string
  path :: "cell list"
  robot_pos_on_path_esp_thinks :: "cell option"
  current_path_idx_esp :: int

text \<open>\<open>xs.index(x, start)\<close>: the first position of \<open>x\<close> at or after \<open>start\<close>,
  \<open>ValueError\<close> when there is none.\<close>

fun first_index :: "'a list \<Rightarrow> 'a \<Rightarrow> nat option" where
  "first_index [] x = None"
| "first_index (y # ys) x = (if y = x then Some 0 else map_option Suc (first_index ys x))"

definition py_list_index :: "'a list \<Rightarrow> 'a \<Rightarrow> int \<Rightarrow> error + int" where
  "py_list_index xs x start =
     (let n = int (length xs); b = (if start < 0 then max 0 (n + start) else start) in
      case first_index (drop (nat b) xs) x of
        None \<Rightarrow> Inl ValueError
      | Some i \<Rightarrow> Inr (b + int i))"

subsection \<open>get\_action\_from\_path\<close>

text \<open>The heading table and the turn decision for the segment from
  \<open>current_node_on_path\<close> to \<open>next_node_on_path\<close> (the second half of the function).\<close>

definition target_theta :: "('f::{minus,uminus,inverse,abs,ord}) pylib \<Rightarrow> int \<Rightarrow> int \<Rightarrow> 'f option" where
  "target_theta L dr dc =
     (if dc = 1 \<and> dr = 0 then Some (m_float L 0)
      else if dc = -1 \<and> dr = 0 then Some (m_pi L)
      else if dr = 1 \<and> dc = 0 then Some (m_pi L / m_float L 2)
      else if dr = -1 \<and> dc = 0 then Some (- m_pi L / m_float L 2)
      else None)"

definition segment_action ::
  "('f::{minus,uminus,inverse,abs,ord}) pylib \<Rightarrow> cell \<Rightarrow> cell \<Rightarrow> 'f \<Rightarrow> string" where
  "segment_action L current_node_on_path next_node_on_path world_theta_rad =
     (let dr = fst next_node_on_path - fst current_node_on_path;
          dc = snd next_node_on_path - snd current_node_on_path in
      case target_theta L dr dc of
        None \<Rightarrow> ''stop''
      | Some target_theta_rad \<Rightarrow>
          (let current_theta_norm =
                 m_atan2 L (m_sin L world_theta_rad) (m_cos L world_theta_rad);
               angle_diff0 = target_theta_rad - current_theta_norm;
               angle_diff = m_atan2 L (m_sin L angle_diff0) (m_cos L angle_diff0);
               ANGLE_THRESHOLD_RAD = m_radians L (m_float L 40) in
           if ANGLE_THRESHOLD_RAD < \<bar>angle_diff\<bar>
           then (if m_float L 0 < angle_diff then ''turn_left'' else ''turn_right'')
           else ''forward''))"

text \<open>The function reads the globals \<open>planned_path\<close>, \<open>current_path_index\<close> and
  \<open>goal_grid_pos\<close> and may write \<open>current_path_index\<close> (re-alignment), so it takes
  and returns the state. The index reads are guarded by the bounds test, and the
  \<open>ValueError\<close> of \<open>index\<close> is caught by the function itself.\<close>

definition get_action_from_path ::
  "('f::{minus,uminus,inverse,abs,ord}) pylib \<Rightarrow> pstate \<Rightarrow> cell option \<Rightarrow> 'f \<Rightarrow> int list \<Rightarrow>
     (string \<times> cell option) \<times> pstate" where
  "get_action_from_path L st robot_pos_on_path world_theta_rad webots_line_sensors_binary =
     (if planned_path st = [] \<or> robot_pos_on_path = None then ((''stop'', robot_pos_on_path), st)
      else if robot_pos_on_path = goal_grid_pos st then ((''stop'', robot_pos_on_path), st)
      else if \<not> (0 \<le> current_path_index st \<and>
                  current_path_index st < int (length (planned_path st)) - 1)
      then ((''stop'', robot_pos_on_path), st)
      else
        (let current_node_on_path = planned_path st ! nat (current_path_index st);
             next_node_on_path = planned_path st ! nat (current_path_index st + 1) in
         if robot_pos_on_path \<noteq> Some current_node_on_path then
           (case py_list_index (planned_path st) (the robot_pos_on_path) (current_path_index st) of
              Inl e \<Rightarrow> ((''stop'', robot_pos_on_path), st)
            | Inr i \<Rightarrow>
                (let st' = st\<lparr>current_path_index := i\<rparr>;
                     current_node_on_path' = planned_path st' ! nat i in
                 if i \<ge> int (length (planned_path st')) - 1
                 then ((''stop'', robot_pos_on_path), st')
                 else
                   ((segment_action L current_node_on_path'
                       (planned_path st' ! nat (i + 1)) world_theta_rad,
                     Some current_node_on_path'), st')))
         else
           ((segment_action L current_node_on_path next_node_on_path world_theta_rad,
             Some current_node_on_path), st)))"

subsection \<open>Processing one status message (the body of the main loop)\<close>

text \<open>Lines 299--322: the belief update from the message.\<close>

definition update_belief :: "'f status \<Rightarrow> pstate \<Rightarrow> pstate" where
  "update_belief msg st =
     (let new_robot_pos_actual = robot_grid_pos msg;
          new_goal_pos_from_webots = status_goal_grid_pos msg;
          st1 =
            (if Some new_robot_pos_actual \<noteq> current_robot_grid_pos_actual st then
               (let a = st\<lparr>current_robot_grid_pos_actual := Some new_robot_pos_actual\<rparr>;
                    b = (case current_robot_grid_pos_path a of
                           None \<Rightarrow> a
                         | Some p \<Rightarrow>
                             if \<bar>fst new_robot_pos_actual - fst p\<bar> > 1 \<or>
                                \<bar>snd new_robot_pos_actual - snd p\<bar> > 1
                             then a\<lparr>path_needs_replan := True\<rparr> else a) in
                if current_robot_grid_pos_path b = None
                then b\<lparr>current_robot_grid_pos_path := current_robot_grid_pos_actual b\<rparr>
                else b)
             else st);
          st2 =
            (if Some new_goal_pos_from_webots \<noteq> goal_grid_pos st1
             then st1\<lparr>goal_grid_pos := Some new_goal_pos_from_webots, path_needs_replan := True\<rparr>
             else st1);
          st3 =
            (if current_robot_grid_pos_actual st2 = None
             then st2\<lparr>current_robot_grid_pos_actual := Some new_robot_pos_actual\<rparr> else st2);
          st4 =
            (if current_robot_grid_pos_path st3 = None
             then st3\<lparr>current_robot_grid_pos_path := Some new_robot_pos_actual\<rparr> else st3)
      in if goal_grid_pos st4 = None
         then st4\<lparr>goal_grid_pos := Some new_goal_pos_from_webots, path_needs_replan := True\<rparr>
         else st4)"

text \<open>Line 326: the replanning trigger.\<close>

definition replan_due :: "'f pylib \<Rightarrow> int \<Rightarrow> pstate \<Rightarrow> bool" where
  "replan_due L current_time_ms st \<longleftrightarrow>
     path_needs_replan st \<or>
     ticks_diff L current_time_ms (last_replan_time st) > REPLAN_INTERVAL_MS"

text \<open>Lines 333--358: what the replanning block does with the planner's result.\<close>

definition adopt_path :: "int \<Rightarrow> cell \<Rightarrow> cell list \<Rightarrow> pstate \<Rightarrow> pstate" where
  "adopt_path current_time_ms actual new_path st =
     (if new_path \<noteq> [] then
        (let st1 = st\<lparr>planned_path := new_path, current_path_index := 0\<rparr>;
             st2 =
               (if planned_path st1 ! 0 = actual
                then st1\<lparr>current_robot_grid_pos_path := Some (planned_path st1 ! 0)\<rparr>
                else
                  (case py_list_index (planned_path st1) actual 0 of
                     Inr i \<Rightarrow> st1\<lparr>current_path_index := i,
                                   current_robot_grid_pos_path := Some actual\<rparr>
                   | Inl e \<Rightarrow> st1\<lparr>current_robot_grid_pos_path := Some (planned_path st1 ! 0),
                                   current_path_index := 0\<rparr>))
         in st2\<lparr>path_needs_replan := False, last_replan_time := current_time_ms\<rparr>)
      else st\<lparr>planned_path := [], path_needs_replan := True\<rparr>)"

text \<open>Lines 326--360. The result is \<open>None\<close> if the planner does not return, \<open>Inl\<close> if it
  raises (the handler of the message loop then abandons the message).\<close>

definition replan :: "'f pylib \<Rightarrow> int \<Rightarrow> pstate \<Rightarrow> (error + pstate) option" where
  "replan L current_time_ms st =
     (if replan_due L current_time_ms st then
        (case (current_robot_grid_pos_actual st, goal_grid_pos st) of
           (Some a, Some g) \<Rightarrow>
             (case dijkstra grid_map a g of
                None \<Rightarrow> None
              | Some (Inl e) \<Rightarrow> Some (Inl e)
              | Some (Inr new_path) \<Rightarrow> Some (Inr (adopt_path current_time_ms a new_path st)))
         | _ \<Rightarrow> Some (Inr st))
      else Some (Inr st))"

text \<open>Lines 375--399: the cursor advancement after the action is chosen.\<close>

definition advance_cursor :: "string \<Rightarrow> pstate \<Rightarrow> error + pstate" where
  "advance_cursor action_to_send st =
     (if current_robot_grid_pos_actual st = current_robot_grid_pos_path st then
        (if action_to_send = ''forward'' \<and>
            current_path_index st < int (length (planned_path st)) - 1 then
           (if current_path_index st < int (length (planned_path st)) - 1 then
              (case py_index (planned_path st) (current_path_index st + 1) of
                 Inl e \<Rightarrow> Inl e
               | Inr prospective_next_node_on_path \<Rightarrow>
                   if current_robot_grid_pos_actual st = Some prospective_next_node_on_path
                   then Inr (st\<lparr>current_path_index := current_path_index st + 1,
                           current_robot_grid_pos_path := Some prospective_next_node_on_path\<rparr>)
                   else Inr st)
            else Inr st)
         else Inr st)
      else Inr st)"

text \<open>Lines 363--399: choosing the action. When the advancement raises, the state is
  the one \<open>get_action_from_path\<close> left.\<close>

definition determine_action ::
  "('f::{minus,uminus,inverse,abs,ord}) pylib \<Rightarrow> 'f status \<Rightarrow> pstate \<Rightarrow>
     (error \<times> pstate) + (string \<times> pstate)" where
  "determine_action L msg st =
     (if planned_path st \<noteq> [] \<and> current_robot_grid_pos_path st \<noteq> None \<and>
         goal_grid_pos st \<noteq> None then
        (case get_action_from_path L st (current_robot_grid_pos_path st) (theta_rad msg)
                (sensors_binary msg) of
           ((action_to_send, _), st') \<Rightarrow>
             (case advance_cursor action_to_send st' of
                Inl e \<Rightarrow> Inl (e, st')
              | Inr st'' \<Rightarrow> Inr (action_to_send, st'')))
      else Inr (''stop'', st))"

text \<open>Lines 402--407: the goal test on the actual position.\<close>

definition goal_check :: "string \<times> pstate \<Rightarrow> string \<times> pstate" where
  "goal_check r =
     (case r of (action_to_send, st) \<Rightarrow>
        if current_robot_grid_pos_actual st = goal_grid_pos st
        then (''stop'', st\<lparr>planned_path := [], path_needs_replan := False\<rparr>)
        else (action_to_send, st))"

definition command_to_webots :: "string \<Rightarrow> pstate \<Rightarrow> command" where
  "command_to_webots action_to_send st =
     \<lparr>action = action_to_send, path = planned_path st,
      robot_pos_on_path_esp_thinks = current_robot_grid_pos_path st,
      current_path_idx_esp = current_path_index st\<rparr>"

text \<open>The whole handling of one \<open>webots_status\<close> message: the new state and the
  command sent, if one is sent. An exception raised on the way is caught by the
  \<open>except Exception\<close> clause of the message loop: the globals keep the values they had
  when it was raised and nothing is sent.\<close>

definition process_status ::
  "('f::{minus,uminus,inverse,abs,ord}) pylib \<Rightarrow> int \<Rightarrow> 'f status \<Rightarrow> pstate \<Rightarrow>
     (pstate \<times> command option) option" where
  "process_status L current_time_ms msg st =
     (let st1 = update_belief msg st in
      case replan L current_time_ms st1 of
        None \<Rightarrow> None
      | Some (Inl e) \<Rightarrow> Some (st1, None)
      | Some (Inr st2) \<Rightarrow>
          (case determine_action L msg st2 of
             Inl (e, st3) \<Rightarrow> Some (st3, None)
           | Inr r \<Rightarrow>
               (case goal_check r of
                  (action_to_send, st3) \<Rightarrow>
                    Some (st3, Some (command_to_webots action_to_send st3)))))"

text \<open>Lines 425--435: an empty read, the client disconnected.\<close>

definition on_disconnect :: "pstate \<Rightarrow> pstate" where
  "on_disconnect st =
     st\<lparr>conn := False, current_robot_grid_pos_actual := None,
        current_robot_grid_pos_path := None, planned_path := [],
        path_needs_replan := True\<rparr>"

text \<open>Lines 252--261: a client is accepted.\<close>

definition on_accept :: "pstate \<Rightarrow> pstate" where
  "on_accept st = st\<lparr>conn := True, path_needs_replan := True\<rparr>"


section \<open>Motion side (controllers/the\_sequel\_bot.py)\<close>

text \<open>
  On the motion side the Python floats (times, speeds, sensor readings, the pose) are
  modelled as real numbers; the properties below are about the control flow, not about
  rounding.
\<close>

definition FORWARD_SPEED :: real where "FORWARD_SPEED = 1.5"
definition LINE_THRESHOLD :: real where "LINE_THRESHOLD = 600"
definition DISTANCE_SENSOR_THRESHOLD :: real where "DISTANCE_SENSOR_THRESHOLD = 110"
definition OBSTACLE_DETECTION_ENABLED :: bool where "OBSTACLE_DETECTION_ENABLED = True"
definition TURN_SPEED_FACTOR :: real where "TURN_SPEED_FACTOR = 1.5"
definition MIN_INITIAL_SPIN_DURATION :: real where "MIN_INITIAL_SPIN_DURATION = 0.6"
definition MAX_SEARCH_SPIN_DURATION :: real where "MAX_SEARCH_SPIN_DURATION = 18.9"
definition MAX_ADJUST_DURATION :: real where "MAX_ADJUST_DURATION = 2.20"
definition TURN_ADJUST_BASE_SPEED :: real where "TURN_ADJUST_BASE_SPEED = FORWARD_SPEED * 0.8"
definition TURN_UNTIL_LINE_FOUND :: bool where "TURN_UNTIL_LINE_FOUND = True"
definition AGGRESSIVE_CORRECTION_DIFFERENTIAL :: real where
  "AGGRESSIVE_CORRECTION_DIFFERENTIAL = FORWARD_SPEED * 1.3"
definition MODERATE_CORRECTION_DIFFERENTIAL :: real where
  "MODERATE_CORRECTION_DIFFERENTIAL = FORWARD_SPEED * 1.2"
definition GRID_CELL_SIZE :: real where "GRID_CELL_SIZE = 0.05099"
definition GRID_ORIGIN_X :: real where "GRID_ORIGIN_X = 0.050002"
definition GRID_ORIGIN_Z :: real where "GRID_ORIGIN_Z = - 0.00000639"

subsection \<open>CoordinateConverter\<close>

text \<open>Python's \<open>round\<close> of a float: to the nearest integer, a tie to the even one.\<close>

definition py_round :: "real \<Rightarrow> int" where
  "py_round x =
     (let f = \<lfloor>x\<rfloor>; d = x - of_int f in
      if d < 1 / 2 then f else if 1 / 2 < d then f + 1 else if even f then f else f + 1)"

definition world_to_grid :: "real \<Rightarrow> real \<Rightarrow> cell" where
  "world_to_grid world_x world_z =
     (let col = py_round ((world_x - GRID_ORIGIN_X) / GRID_CELL_SIZE);
          row = py_round ((world_z - GRID_ORIGIN_Z) / GRID_CELL_SIZE);
          col = max 0 (min col (GRID_COLS - 1));
          row = max 0 (min row (GRID_ROWS - 1))
      in (row, col))"

subsection \<open>ObstacleDetector\<close>

record pose =
  pose_x :: real
  pose_z :: real
  pose_theta :: real

record obstacle_detector =
  detected_obstacles :: "cell set"
  recent_obstacles :: "cell list"

definition new_obstacle_detector :: obstacle_detector where
  "new_obstacle_detector = \<lparr>detected_obstacles = {}, recent_obstacles = []\<rparr>"

text \<open>\<open>math.degrees(orientation) % 360\<close>; the result of \<open>%\<close> has the sign of 360.\<close>

definition theta_degrees_of :: "real \<Rightarrow> real" where
  "theta_degrees_of orientation =
     (let deg = orientation * 180 / pi in deg - 360 * of_int \<lfloor>deg / 360\<rfloor>)"

definition calculate_obstacle_position :: "int \<Rightarrow> int \<Rightarrow> real \<Rightarrow> int \<Rightarrow> error + cell" where
  "calculate_obstacle_position robot_row robot_col orientation sensor_index =
     (let theta_degrees = theta_degrees_of orientation;
          offsets =
            (if (- 45 \<le> theta_degrees \<and> theta_degrees \<le> 45) \<or>
                (315 \<le> theta_degrees \<and> theta_degrees \<le> 360)
             then [(0, 1), (- 1, 1), (1, 1)]
             else if 45 < theta_degrees \<and> theta_degrees \<le> 135
             then [(1, 0), (1, 1), (1, - 1)]
             else if 135 < theta_degrees \<and> theta_degrees \<le> 225
             then [(0, - 1), (1, - 1), (- 1, - 1)]
             else [(- 1, 0), (- 1, - 1), (- 1, 1)])
      in case py_index offsets sensor_index of
           Inl e \<Rightarrow> Inl e
         | Inr (delta_row, delta_col) \<Rightarrow> Inr (robot_row + delta_row, robot_col + delta_col))"

definition is_valid_position :: "cell \<Rightarrow> bool" where
  "is_valid_position position \<longleftrightarrow>
     0 \<le> fst position \<and> fst position < GRID_ROWS \<and> 0 \<le> snd position \<and> snd position < GRID_COLS"

text \<open>The \<open>for sensor_index, distance_value in enumerate(distance_values)\<close> loop of
  \<open>process_sensor_readings\<close>, with the list \<open>new_obstacles\<close> built so far. An exception
  leaves the detector as it is at that point.\<close>

fun sensor_loop ::
  "int \<Rightarrow> int \<Rightarrow> real \<Rightarrow> int \<Rightarrow> real list \<Rightarrow> cell list \<Rightarrow> obstacle_detector \<Rightarrow>
     (error + cell list) \<times> obstacle_detector" where
  "sensor_loop current_row current_col robot_orientation sensor_index [] new_obstacles d =
     (Inr new_obstacles, d)"
| "sensor_loop current_row current_col robot_orientation sensor_index (distance_value # vs)
       new_obstacles d =
     (if distance_value > DISTANCE_SENSOR_THRESHOLD then
        (case calculate_obstacle_position current_row current_col robot_orientation sensor_index of
           Inl e \<Rightarrow> (Inl e, d)
         | Inr obstacle_position \<Rightarrow>
             if is_valid_position obstacle_position \<and>
                obstacle_position \<notin> detected_obstacles d
             then sensor_loop current_row current_col robot_orientation (sensor_index + 1) vs
                    (new_obstacles @ [obstacle_position])
                    (d\<lparr>detected_obstacles := insert obstacle_position (detected_obstacles d)\<rparr>)
             else sensor_loop current_row current_col robot_orientation (sensor_index + 1) vs
                    new_obstacles d)
      else sensor_loop current_row current_col robot_orientation (sensor_index + 1) vs
             new_obstacles d)"

definition process_sensor_readings ::
  "pose \<Rightarrow> real \<Rightarrow> real list \<Rightarrow> obstacle_detector \<Rightarrow> (error + cell list) \<times> obstacle_detector" where
  "process_sensor_readings robot_world_pose robot_orientation distance_values d =
     (if \<not> OBSTACLE_DETECTION_ENABLED then (Inr [], d)
      else
        (case world_to_grid (pose_x robot_world_pose) (pose_z robot_world_pose) of
           (current_row, current_col) \<Rightarrow>
             sensor_loop current_row current_col robot_orientation 0 distance_values [] d))"

definition get_recent_obstacles :: "obstacle_detector \<Rightarrow> cell list \<times> obstacle_detector" where
  "get_recent_obstacles d = (recent_obstacles d, d\<lparr>recent_obstacles := []\<rparr>)"

definition add_recent_obstacles :: "cell list \<Rightarrow> obstacle_detector \<Rightarrow> obstacle_detector" where
  "add_recent_obstacles obstacles d = d\<lparr>recent_obstacles := recent_obstacles d @ obstacles\<rparr>"

text \<open>
  The two places where the main loop uses the detector: the obstacle check of a tick
  (lines 523--529: \<open>process_sensor_readings\<close>, then \<open>add_recent_obstacles\<close> if the result is
  not empty) and the status message (line 553: \<open>get_recent_obstacles\<close>). A run of the
  loop is a list of such calls; it yields the batches returned, in order, and ends when
  a call raises, since nothing in \<open>main\<close> catches the exception.
\<close>

datatype detector_call = Sense pose real "real list" | Report

datatype detector_out = Sensed "cell list" | Reported "cell list"

fun run_detector :: "detector_call list \<Rightarrow> obstacle_detector \<Rightarrow> detector_out list" where
  "run_detector [] d = []"
| "run_detector (Sense robot_world_pose theta vs # cs) d =
     (case process_sensor_readings robot_world_pose theta vs d of
        (Inl e, d') \<Rightarrow> []
      | (Inr new_obstacles, d') \<Rightarrow>
          Sensed new_obstacles #
          run_detector cs
            (if new_obstacles \<noteq> [] then add_recent_obstacles new_obstacles d' else d'))"
| "run_detector (Report # cs) d =
     (case get_recent_obstacles d of (obstacles, d') \<Rightarrow> Reported obstacles # run_detector cs d')"

fun sensed_cells :: "detector_out list \<Rightarrow> cell list" where
  "sensed_cells [] = []"
| "sensed_cells (Sensed b # os) = b @ sensed_cells os"
| "sensed_cells (Reported b # os) = sensed_cells os"

fun reported_cells :: "detector_out list \<Rightarrow> cell list" where
  "reported_cells [] = []"
| "reported_cells (Sensed b # os) = reported_cells os"
| "reported_cells (Reported b # os) = b @ reported_cells os"

subsection \<open>TurnController\<close>

datatype phase = NONE | INITIATE_SPIN | SEARCHING_LINE | ADJUSTING_ON_LINE

record turn_controller =
  current_phase :: phase
  active_command :: "string option"
  phase_start_time :: real

definition new_turn_controller :: turn_controller where
  "new_turn_controller = \<lparr>current_phase = NONE, active_command = None, phase_start_time = 0\<rparr>"

text \<open>Python's \<open>any\<close> on a list of integers: some element is not 0.\<close>

definition py_any :: "int list \<Rightarrow> bool" where
  "py_any xs = list_ex (\<lambda>x. x \<noteq> 0) xs"

definition initiate_turn :: "string \<Rightarrow> real \<Rightarrow> turn_controller \<Rightarrow> turn_controller" where
  "initiate_turn turn_direction current_time tc =
     (if active_command tc \<noteq> Some turn_direction \<or> current_phase tc = NONE
      then tc\<lparr>active_command := Some turn_direction, current_phase := INITIATE_SPIN,
              phase_start_time := current_time\<rparr>
      else tc)"

definition calculate_turn_speeds :: "turn_controller \<Rightarrow> real \<Rightarrow> real \<Rightarrow> real \<times> real" where
  "calculate_turn_speeds tc inner_factor outer_factor =
     (let inner_speed = - FORWARD_SPEED * TURN_SPEED_FACTOR * inner_factor;
          outer_speed = FORWARD_SPEED * TURN_SPEED_FACTOR * outer_factor in
      if active_command tc = Some ''turn_left'' then (inner_speed, outer_speed)
      else (outer_speed, inner_speed))"

definition execute_initial_spin :: "real \<Rightarrow> turn_controller \<Rightarrow> (real \<times> real) \<times> turn_controller" where
  "execute_initial_spin current_time tc =
     (let spin_speeds = calculate_turn_speeds tc 0.8 1.1 in
      if current_time - phase_start_time tc > MIN_INITIAL_SPIN_DURATION
      then (spin_speeds, tc\<lparr>current_phase := SEARCHING_LINE, phase_start_time := current_time\<rparr>)
      else (spin_speeds, tc))"

definition execute_line_search ::
  "int list \<Rightarrow> real \<Rightarrow> turn_controller \<Rightarrow> (real \<times> real) \<times> turn_controller" where
  "execute_line_search line_sensors current_time tc =
     (let search_speeds = calculate_turn_speeds tc 0.5 0.9 in
      if py_any line_sensors
      then (search_speeds, tc\<lparr>current_phase := ADJUSTING_ON_LINE, phase_start_time := current_time\<rparr>)
      else if \<not> TURN_UNTIL_LINE_FOUND \<and>
              current_time - phase_start_time tc > MAX_SEARCH_SPIN_DURATION
      then ((0, 0), tc\<lparr>current_phase := NONE\<rparr>)
      else (search_speeds, tc))"

text \<open>
  \<open>_execute_line_adjustment\<close> is an \<open>if\<close>/\<open>elif\<close>/\<open>else\<close> chain over the sensor
  pattern followed by the timeout check. \<open>adjust_dispatch\<close> is the chain: \<open>Some\<close> is the
  value a branch returns, \<open>None\<close> would be control passing on to the statement after the
  chain. \<open>adjust_timeout\<close> is that statement; a Python function that ends without
  \<open>return\<close> yields \<open>None\<close>.
\<close>

definition adjust_dispatch ::
  "int \<Rightarrow> int \<Rightarrow> int \<Rightarrow> real \<Rightarrow> turn_controller \<Rightarrow> ((real \<times> real) \<times> turn_controller) option" where
  "adjust_dispatch left_sensor center_sensor right_sensor current_time tc =
     (let base_speed = TURN_ADJUST_BASE_SPEED;
          moderate_diff = MODERATE_CORRECTION_DIFFERENTIAL * (base_speed / FORWARD_SPEED);
          aggressive_diff = AGGRESSIVE_CORRECTION_DIFFERENTIAL * (base_speed / FORWARD_SPEED) in
      if left_sensor = 0 \<and> center_sensor \<noteq> 0 \<and> right_sensor = 0
      then Some ((base_speed * 0.3, base_speed * 0.3),
                 tc\<lparr>current_phase := NONE, active_command := None\<rparr>)
      else if left_sensor \<noteq> 0 \<and> center_sensor \<noteq> 0 \<and> right_sensor = 0
      then Some ((base_speed - moderate_diff, base_speed), tc)
      else if left_sensor = 0 \<and> center_sensor \<noteq> 0 \<and> right_sensor \<noteq> 0
      then Some ((base_speed, base_speed - moderate_diff), tc)
      else if left_sensor \<noteq> 0 \<and> center_sensor = 0 \<and> right_sensor = 0
      then Some ((base_speed - aggressive_diff, base_speed), tc)
      else if left_sensor = 0 \<and> center_sensor = 0 \<and> right_sensor \<noteq> 0
      then Some ((base_speed, base_speed - aggressive_diff), tc)
      else if \<not> py_any [left_sensor, center_sensor, right_sensor]
      then (let tc' = tc\<lparr>current_phase := SEARCHING_LINE, phase_start_time := current_time\<rparr>
            in Some (calculate_turn_speeds tc' 0.5 0.9, tc'))
      else Some ((base_speed * 0.7, base_speed * 0.7), tc))"

definition adjust_timeout ::
  "real \<Rightarrow> turn_controller \<Rightarrow> (real \<times> real) option \<times> turn_controller" where
  "adjust_timeout current_time tc =
     (if current_time - phase_start_time tc > MAX_ADJUST_DURATION
      then (Some (0, 0), tc\<lparr>current_phase := NONE, active_command := None\<rparr>)
      else (None, tc))"

definition execute_line_adjustment ::
  "int list \<Rightarrow> real \<Rightarrow> turn_controller \<Rightarrow> error + ((real \<times> real) option \<times> turn_controller)" where
  "execute_line_adjustment line_sensors current_time tc =
     (case line_sensors of
        [left_sensor, center_sensor, right_sensor] \<Rightarrow>
          (case adjust_dispatch left_sensor center_sensor right_sensor current_time tc of
             Some (speeds, tc') \<Rightarrow> Inr (Some speeds, tc')
           | None \<Rightarrow> Inr (adjust_timeout current_time tc))
      | _ \<Rightarrow> Inl ValueError)"

definition execute_turn ::
  "string \<Rightarrow> int list \<Rightarrow> real \<Rightarrow> turn_controller \<Rightarrow>
     error + ((real \<times> real) option \<times> turn_controller)" where
  "execute_turn turn_direction line_sensors current_time tc =
     (if current_phase tc = INITIATE_SPIN then
        (case execute_initial_spin current_time tc of (sp, tc') \<Rightarrow> Inr (Some sp, tc'))
      else if current_phase tc = SEARCHING_LINE then
        (case execute_line_search line_sensors current_time tc of (sp, tc') \<Rightarrow> Inr (Some sp, tc'))
      else if current_phase tc = ADJUSTING_ON_LINE then
        execute_line_adjustment line_sensors current_time tc
      else Inr (Some (0, 0), tc))"

definition is_turning :: "turn_controller \<Rightarrow> bool" where
  "is_turning tc \<longleftrightarrow> current_phase tc \<noteq> NONE"

definition reset :: "turn_controller \<Rightarrow> turn_controller" where
  "reset tc = tc\<lparr>current_phase := NONE, active_command := None\<rparr>"

subsection \<open>The motion loop: effective command and movement\<close>

definition calculate_line_following_speeds :: "int list \<Rightarrow> error + real \<times> real" where
  "calculate_line_following_speeds line_sensors =
     (case line_sensors of
        [left_sensor, center_sensor, right_sensor] \<Rightarrow>
          (let base_speed = FORWARD_SPEED in
           if left_sensor = 0 \<and> center_sensor \<noteq> 0 \<and> right_sensor = 0
           then Inr (base_speed, base_speed)
           else if left_sensor \<noteq> 0 \<and> center_sensor \<noteq> 0 \<and> right_sensor = 0
           then Inr (base_speed - MODERATE_CORRECTION_DIFFERENTIAL, base_speed)
           else if left_sensor = 0 \<and> center_sensor \<noteq> 0 \<and> right_sensor \<noteq> 0
           then Inr (base_speed, base_speed - MODERATE_CORRECTION_DIFFERENTIAL)
           else if left_sensor \<noteq> 0 \<and> center_sensor = 0 \<and> right_sensor = 0
           then Inr (base_speed - AGGRESSIVE_CORRECTION_DIFFERENTIAL, base_speed)
           else if left_sensor = 0 \<and> center_sensor = 0 \<and> right_sensor \<noteq> 0
           then Inr (base_speed, base_speed - AGGRESSIVE_CORRECTION_DIFFERENTIAL)
           else if left_sensor \<noteq> 0 \<and> center_sensor \<noteq> 0 \<and> right_sensor \<noteq> 0
           then Inr (base_speed * 0.7, base_speed * 0.7)
           else if \<not> py_any line_sensors
           then Inr (base_speed * 0.2, base_speed * 0.2)
           else Inr (base_speed * 0.3, base_speed * 0.3))
      | _ \<Rightarrow> Inl ValueError)"

text \<open>Lines 578--592 of \<open>main\<close>. The effective command is a string, or \<open>None\<close> when it is
  taken from an \<open>active_command\<close> that is \<open>None\<close>.\<close>

definition effective_command ::
  "turn_controller \<Rightarrow> string \<Rightarrow> int list \<Rightarrow> string option \<times> turn_controller" where
  "effective_command tc esp32_command line_detected =
     (let sensors_detect_line = py_any line_detected in
      if is_turning tc then
        (if esp32_command = ''stop'' then (Some ''stop'', reset tc)
         else (active_command tc, tc))
      else if sensors_detect_line \<and>
              esp32_command \<notin> set [''turn_left'', ''turn_right'', ''stop'']
      then (Some ''forward'', tc)
      else if \<not> sensors_detect_line \<and> esp32_command = ''forward''
      then (Some ''turn_left'', tc)
      else (Some esp32_command, tc))"

text \<open>Lines 594--604 of \<open>main\<close>. Unpacking the \<open>None\<close> that \<open>execute_turn\<close> may return
  raises \<open>TypeError\<close>.\<close>

definition execute_movement ::
  "string option \<Rightarrow> int list \<Rightarrow> real \<Rightarrow> turn_controller \<Rightarrow>
     error + ((real \<times> real) \<times> turn_controller)" where
  "execute_movement effective line_detected current_time tc =
     (if effective = Some ''stop'' then Inr ((0, 0), reset tc)
      else if effective = Some ''forward'' then
        (case calculate_line_following_speeds line_detected of
           Inl e \<Rightarrow> Inl e
         | Inr speeds \<Rightarrow> Inr (speeds, reset tc))
      else if effective \<in> set [Some ''turn_left'', Some ''turn_right''] then
        (let tc1 = initiate_turn (the effective) current_time tc in
         case execute_turn (the effective) line_detected current_time tc1 of
           Inl e \<Rightarrow> Inl e
         | Inr (None, tc2) \<Rightarrow> Inl TypeError
         | Inr (Some speeds, tc2) \<Rightarrow> Inr (speeds, tc2))
      else Inr ((0, 0), tc))"


section \<open>Notions used in the statements\<close>

subsection \<open>Paths on a grid\<close>

text \<open>A cell is pathable if it lies inside the grid and its map value is 0. The
  dimensions are taken as \<open>dijkstra\<close> takes them: the number of rows and the length of
  the first row.\<close>

definition in_grid :: "grid \<Rightarrow> cell \<Rightarrow> bool" where
  "in_grid grid n \<longleftrightarrow>
     0 \<le> fst n \<and> fst n < int (length grid) \<and> 0 \<le> snd n \<and> snd n < int (length (hd grid))"

definition pathable :: "grid \<Rightarrow> cell \<Rightarrow> bool" where
  "pathable grid n \<longleftrightarrow> in_grid grid n \<and> grid ! nat (fst n) ! nat (snd n) = 0"

text \<open>A grid is rectangular if it has a row and all rows have the length of the
  first.\<close>

definition rectangular :: "grid \<Rightarrow> bool" where
  "rectangular grid \<longleftrightarrow> grid \<noteq> [] \<and> list_all (\<lambda>row. length row = length (hd grid)) grid"

text \<open>Two cells are a unit cardinal step apart if they differ by exactly one in the row
  or in the column, and not in the other coordinate.\<close>

definition unit_step :: "cell \<Rightarrow> cell \<Rightarrow> bool" where
  "unit_step a b \<longleftrightarrow>
     (fst b = fst a \<and> \<bar>snd b - snd a\<bar> = 1) \<or> (snd b = snd a \<and> \<bar>fst b - fst a\<bar> = 1)"

text \<open>A path from \<open>s\<close> to \<open>g\<close>: a non-empty list of pathable cells that starts at
  \<open>s\<close>, ends at \<open>g\<close> and moves by unit cardinal steps.\<close>

definition is_path :: "grid \<Rightarrow> cell \<Rightarrow> cell \<Rightarrow> cell list \<Rightarrow> bool" where
  "is_path grid s g p \<longleftrightarrow>
     p \<noteq> [] \<and> hd p = s \<and> last p = g \<and> list_all (pathable grid) p \<and> successively unit_step p"

subsection \<open>Invariants of the search loop\<close>

text \<open>The pathable 4-neighbours of a cell, in the order of \<open>get_valid_neighbors\<close>.\<close>

definition nbrs :: "grid \<Rightarrow> cell \<Rightarrow> cell list" where
  "nbrs grid n =
     filter (pathable grid)
       [(fst n, snd n + 1), (fst n, snd n - 1), (fst n + 1, snd n), (fst n - 1, snd n)]"

text \<open>Every node with a cost is pathable and is either the start node, with cost 0 and
  no predecessor, or has a predecessor one step away whose cost is one less.\<close>

definition tree_inv :: "grid \<Rightarrow> cell \<Rightarrow> dstate \<Rightarrow> bool" where
  "tree_inv grid s st \<longleftrightarrow>
     (\<forall>v d. cost_so_far st v = Some d \<longrightarrow>
        pathable grid v \<and> 0 \<le> d \<and>
        ((v = s \<and> d = 0 \<and> came_from st v = Some None) \<or>
         (\<exists>p. came_from st v = Some (Some p) \<and> cost_so_far st p = Some (d - 1) \<and>
              unit_step p v)))"

text \<open>
  The invariant of the search while the node \<open>cur\<close> (if any) is being expanded, \<open>c\<close>
  being the cost of the node popped last: the queue is sorted, its entries carry the
  cost of their node, all costs lie within \<open>c + 1\<close>, every node that has left the queue
  and is not being expanded has all its neighbours discovered at most one step further,
  and the goal, once discovered, is still queued.
\<close>

definition search_inv :: "grid \<Rightarrow> cell \<Rightarrow> cell \<Rightarrow> cell option \<Rightarrow> int \<Rightarrow> dstate \<Rightarrow> bool" where
  "search_inv grid s g cur c st \<longleftrightarrow>
     tree_inv grid s st \<and>
     cost_so_far st s = Some 0 \<and>
     sorted (map snd (pq st)) \<and>
     (\<forall>n p. (n, p) \<in> set (pq st) \<longrightarrow> cost_so_far st n = Some p \<and> c \<le> p) \<and>
     (\<forall>v d. cost_so_far st v = Some d \<longrightarrow> d \<le> c + 1) \<and>
     (\<forall>v d. cost_so_far st v = Some d \<longrightarrow> v \<notin> fst ` set (pq st) \<longrightarrow> Some v \<noteq> cur \<longrightarrow>
        (\<forall>w \<in> set (nbrs grid v). \<exists>e. cost_so_far st w = Some e \<and> e \<le> d + 1)) \<and>
     (g \<in> dom (cost_so_far st) \<longrightarrow> g \<in> fst ` set (pq st)) \<and>
     (\<forall>u. cur = Some u \<longrightarrow> cost_so_far st u = Some c)"

definition search_top :: "grid \<Rightarrow> cell \<Rightarrow> cell \<Rightarrow> dstate \<Rightarrow> bool" where
  "search_top grid s g st \<longleftrightarrow>
     (\<exists>c. search_inv grid s g None c st \<and> (pq st \<noteq> [] \<longrightarrow> c = snd (hd (pq st))))"

text \<open>The measure that decreases with every pass of the \<open>while\<close> loop.\<close>

definition cells :: "grid \<Rightarrow> cell set" where
  "cells grid = {0 ..< int (length grid)} \<times> {0 ..< int (length (hd grid))}"

definition search_measure :: "grid \<Rightarrow> dstate \<Rightarrow> nat" where
  "search_measure grid st = 2 * card (cells grid - dom (cost_so_far st)) + length (pq st)"

subsection \<open>Action translation\<close>

text \<open>The claim's words for the action translator: the heading of a unit step
  (+col is 0, -col is pi, +row is pi/2, -row is -pi/2), the normalisation of an
  angle through \<open>atan2(sin, cos)\<close>, and the angular error of a heading.\<close>

definition step_heading :: "('f::{minus,uminus,inverse,abs,ord}) pylib \<Rightarrow> cell \<Rightarrow> cell \<Rightarrow> 'f" where
  "step_heading L a b =
     (if snd b = snd a + 1 then m_float L 0
      else if snd b = snd a - 1 then m_pi L
      else if fst b = fst a + 1 then m_pi L / m_float L 2
      else - m_pi L / m_float L 2)"

definition normalize_angle :: "'f pylib \<Rightarrow> 'f \<Rightarrow> 'f" where
  "normalize_angle L x = m_atan2 L (m_sin L x) (m_cos L x)"

definition angular_error :: "('f::{minus,uminus,inverse,abs,ord}) pylib \<Rightarrow> 'f \<Rightarrow> 'f \<Rightarrow> 'f" where
  "angular_error L target theta = normalize_angle L (target - normalize_angle L theta)"

text \<open>The four actions of the command protocol.\<close>

definition protocol_actions :: "string list" where
  "protocol_actions = [''forward'', ''turn_left'', ''turn_right'', ''stop'']"

subsection \<open>Consistency of the tracker\<close>

text \<open>Whenever there is a planned path, the cursor is a valid index of it and the
  path position is the cell under the cursor. The initial state has it and every
  handler keeps it (lemmas \<open>path_synced_initial\<close>, \<open>path_synced_process_status\<close>,
  \<open>path_synced_on_disconnect\<close>, \<open>path_synced_on_accept\<close>).\<close>

definition path_synced :: "pstate \<Rightarrow> bool" where
  "path_synced st \<longleftrightarrow>
     planned_path st = [] \<or>
     (0 \<le> current_path_index st \<and> current_path_index st < int (length (planned_path st)) \<and>
      current_robot_grid_pos_path st = Some (planned_path st ! nat (current_path_index st)))"

subsection \<open>Concrete instances for the planning side\<close>

text \<open>A library instance: floats as real numbers with the mathematical functions, and
  \<open>ticks_diff\<close> as the difference.\<close>

definition real_atan2 :: "real \<Rightarrow> real \<Rightarrow> real" where
  "real_atan2 y x =
     (if 0 < x then arctan (y / x)
      else if x < 0 \<and> 0 \<le> y then arctan (y / x) + pi
      else if x < 0 then arctan (y / x) - pi
      else if 0 < y then pi / 2
      else if y < 0 then - pi / 2
      else 0)"

definition real_lib :: "real pylib" where
  "real_lib =
     \<lparr>m_float = of_int, m_pi = pi, m_sin = sin, m_cos = cos, m_atan2 = real_atan2,
      m_radians = (\<lambda>d. d * pi / 180), ticks_diff = (\<lambda>a b. a - b)\<rparr>"

text \<open>A status message with heading 0 and the robot centred on the line, and the state
  of the planning loop after the first status \<open>status_at (2, 0) (2, 1)\<close> of a session
  at time 0 (lemma \<open>tracking_state_reached\<close>).\<close>

definition status_at :: "cell \<Rightarrow> cell \<Rightarrow> real status" where
  "status_at pos goal =
     \<lparr>robot_grid_pos = pos, status_goal_grid_pos = goal, theta_rad = 0,
      sensors_binary = [0, 1, 0]\<rparr>"

definition tracking_state :: pstate where
  "tracking_state =
     \<lparr>current_robot_grid_pos_actual = Some (2, 0), current_robot_grid_pos_path = Some (2, 0),
      goal_grid_pos = Some (2, 1), planned_path = [(2, 0), (2, 1)], current_path_index = 0,
      path_needs_replan = False, last_replan_time = 0, conn = True\<rparr>"

lemma py_index_nonneg: "0 \<le> i \<Longrightarrow> i < int (length xs) \<Longrightarrow> py_index xs i = Inr (xs ! nat i)"
  by (simp add: py_index_def)

lemma grid_at_in_grid:
  assumes "rectangular grid" "in_grid grid (r, c)"
  shows "grid_at grid r c = Inr (grid ! nat r ! nat c)"
proof -
  from assms have r: "0 \<le> r" "r < int (length grid)" and c: "0 \<le> c" "c < int (length (hd grid))"
    by (simp_all add: in_grid_def)
  from r have "grid ! nat r \<in> set grid" by simp
  with assms(1) have "length (grid ! nat r) = length (hd grid)"
    unfolding rectangular_def list_all_iff by blast
  with r c show ?thesis by (simp add: grid_at_def py_index_nonneg)
qed

lemma neighbors_loop_rect:
  assumes "rectangular grid"
  shows "neighbors_loop r c (int (length grid)) (int (length (hd grid))) grid ds =
         Inr (map (\<lambda>m. (m, 1)) (filter (pathable grid) (map (\<lambda>(dr, dc). (r + dr, c + dc)) ds)))"
proof (induction ds)
  case Nil
  show ?case by simp
next
  case (Cons d ds)
  obtain dr dc where d: "d = (dr, dc)" by (cases d)
  show ?case
  proof (cases "in_grid grid (r + dr, c + dc)")
    case True
    have b: "0 \<le> r + dr \<and> r + dr < int (length grid) \<and> 0 \<le> c + dc \<and> c + dc < int (length (hd grid))"
      using True by (simp add: in_grid_def)
    have p: "pathable grid (r + dr, c + dc) \<longleftrightarrow> grid ! nat (r + dr) ! nat (c + dc) = 0"
      using True by (simp add: pathable_def)
    show ?thesis
      unfolding d neighbors_loop.simps Let_def
      by (simp only: b if_True grid_at_in_grid[OF assms True] Cons.IH sum.case) (simp add: p)
  next
    case False
    then have b: "\<not> (0 \<le> r + dr \<and> r + dr < int (length grid) \<and> 0 \<le> c + dc \<and> c + dc < int (length (hd grid)))"
      by (simp add: in_grid_def)
    have p: "\<not> pathable grid (r + dr, c + dc)"
      using False by (simp add: pathable_def)
    show ?thesis
      unfolding d neighbors_loop.simps Let_def
      by (simp only: b if_False Cons.IH) (simp add: p)
  qed
qed

lemma get_valid_neighbors_rect:
  assumes "rectangular grid"
  shows "get_valid_neighbors (fst n) (snd n) (int (length grid)) (int (length (hd grid))) grid =
         Inr (map (\<lambda>m. (m, 1)) (nbrs grid n))"
  unfolding get_valid_neighbors_def neighbors_loop_rect[OF assms] nbrs_def by simp

lemma abs1: "\<bar>(y::int) - b\<bar> = 1 \<longleftrightarrow> y = b + 1 \<or> y = b - 1"
  by arith

lemma unit_step_iff:
  "unit_step (a, b) (x, y) \<longleftrightarrow>
     (x, y) = (a, b + 1) \<or> (x, y) = (a, b - 1) \<or> (x, y) = (a + 1, b) \<or> (x, y) = (a - 1, b)"
  unfolding unit_step_def by (auto simp add: abs1)

lemma nbrs_iff: "w \<in> set (nbrs grid v) \<longleftrightarrow> pathable grid w \<and> unit_step v w"
proof -
  obtain a b where v: "v = (a, b)" by (cases v)
  obtain x y where w: "w = (x, y)" by (cases w)
  have "w \<in> set (nbrs grid v) \<longleftrightarrow>
        pathable grid w \<and> (w = (a, b + 1) \<or> w = (a, b - 1) \<or> w = (a + 1, b) \<or> w = (a - 1, b))"
    unfolding nbrs_def v by (simp only: set_filter fst_conv snd_conv) auto
  then show ?thesis
    unfolding v w unit_step_iff .
qed

lemma finite_cells: "finite (cells grid)"
  by (simp add: cells_def)

lemma pathable_cells: "pathable grid n \<Longrightarrow> n \<in> cells grid"
  by (cases n) (simp add: pathable_def in_grid_def cells_def)

lemma put_sorted:
  assumes "sorted (map snd q)" "\<forall>x \<in> set q. snd x \<le> p"
  shows "put q n p = q @ [(n, p)]"
proof -
  have "sorted (map snd (q @ [(n, p)]))"
    using assms by (simp add: sorted_append)
  then show ?thesis
    unfolding put_def by (rule sort_key_id_if_sorted)
qed

lemma relax_step:
  assumes inv: "search_inv grid s g (Some u) c st" and w: "w \<in> set (nbrs grid u)"
  shows "\<exists>st'. (\<forall>ns. relax u ((w, 1) # ns) st = relax u ns st') \<and>
           search_inv grid s g (Some u) c st' \<and>
           w \<in> dom (cost_so_far st') \<and>
           search_measure grid st' \<le> search_measure grid st \<and>
           dom (cost_so_far st) \<subseteq> dom (cost_so_far st')"
proof -
  from inv have tree: "tree_inv grid s st"
    and start: "cost_so_far st s = Some 0"
    and srt: "sorted (map snd (pq st))"
    and queue: "\<And>n p. (n, p) \<in> set (pq st) \<Longrightarrow> cost_so_far st n = Some p \<and> c \<le> p"
    and bound: "\<And>v d. cost_so_far st v = Some d \<Longrightarrow> d \<le> c + 1"
    and closed: "\<And>v d. cost_so_far st v = Some d \<Longrightarrow> v \<notin> fst ` set (pq st) \<Longrightarrow> v \<noteq> u \<Longrightarrow>
        (\<forall>w \<in> set (nbrs grid v). \<exists>e. cost_so_far st w = Some e \<and> e \<le> d + 1)"
    and pending: "g \<in> dom (cost_so_far st) \<Longrightarrow> g \<in> fst ` set (pq st)"
    and cu: "cost_so_far st u = Some c"
    unfolding search_inv_def by auto
  from w have pw: "pathable grid w" and uw: "unit_step u w"
    by (simp_all add: nbrs_iff)
  show ?thesis
  proof (cases "cost_so_far st w")
    case (Some e)
    with bound have "e \<le> c + 1" by simp
    with Some cu have "\<forall>ns. relax u ((w, 1) # ns) st = relax u ns st"
      by simp
    with inv Some show ?thesis by blast
  next
    case None
    define st' where "st' = st\<lparr>cost_so_far := (cost_so_far st)(w \<mapsto> c + 1),
                      pq := pq st @ [(w, c + 1)],
                      came_from := (came_from st)(w \<mapsto> Some u)\<rparr>"
    have ws: "w \<noteq> s" and wu: "w \<noteq> u"
      using None start cu by auto
    have c0: "0 \<le> c"
      using tree cu unfolding tree_inv_def by blast
    have le: "\<forall>x \<in> set (pq st). snd x \<le> c + 1"
    proof
      fix x assume "x \<in> set (pq st)"
      then have "(fst x, snd x) \<in> set (pq st)" by simp
      from queue[OF this] bound show "snd x \<le> c + 1" by blast
    qed
    have step: "\<forall>ns. relax u ((w, 1) # ns) st = relax u ns st'"
      using None cu by (simp add: st'_def put_sorted[OF srt le] Let_def)
    have cost': "cost_so_far st' = (cost_so_far st)(w \<mapsto> c + 1)"
      and pq': "pq st' = pq st @ [(w, c + 1)]"
      and came': "came_from st' = (came_from st)(w \<mapsto> Some u)"
      by (simp_all add: st'_def)
    have keep: "\<And>v d. cost_so_far st v = Some d \<Longrightarrow> cost_so_far st' v = Some d \<and> v \<noteq> w"
      using None by (auto simp add: cost')
    have old: "\<And>v d. cost_so_far st' v = Some d \<Longrightarrow> v \<noteq> w \<Longrightarrow> cost_so_far st v = Some d"
      by (simp add: cost')
    have t': "tree_inv grid s st'"
      unfolding tree_inv_def
    proof (intro allI impI)
      fix v d assume vd: "cost_so_far st' v = Some d"
      show "pathable grid v \<and> 0 \<le> d \<and>
        ((v = s \<and> d = 0 \<and> came_from st' v = Some None) \<or>
         (\<exists>p. came_from st' v = Some (Some p) \<and> cost_so_far st' p = Some (d - 1) \<and>
              unit_step p v))"
      proof (cases "v = w")
        case True
        with vd have d: "d = c + 1" by (simp add: cost')
        have "came_from st' v = Some (Some u) \<and> cost_so_far st' u = Some (d - 1) \<and> unit_step u v"
          using True d cu wu uw by (simp add: came' cost')
        moreover have "0 \<le> d" using c0 d by simp
        ultimately show ?thesis using True pw by blast
      next
        case False
        from old[OF vd False] have o: "cost_so_far st v = Some d" .
        with tree have a: "pathable grid v \<and> 0 \<le> d" and
          b: "(v = s \<and> d = 0 \<and> came_from st v = Some None) \<or>
             (\<exists>p. came_from st v = Some (Some p) \<and> cost_so_far st p = Some (d - 1) \<and>
              unit_step p v)"
          unfolding tree_inv_def by blast+
        from b have "(v = s \<and> d = 0 \<and> came_from st' v = Some None) \<or>
             (\<exists>p. came_from st' v = Some (Some p) \<and> cost_so_far st' p = Some (d - 1) \<and>
              unit_step p v)"
        proof
          assume "v = s \<and> d = 0 \<and> came_from st v = Some None"
          then show ?thesis using False by (auto simp add: came')
        next
          assume "\<exists>p. came_from st v = Some (Some p) \<and> cost_so_far st p = Some (d - 1) \<and>
              unit_step p v"
          then obtain p where p: "came_from st v = Some (Some p)"
            "cost_so_far st p = Some (d - 1)" "unit_step p v" by blast
          from keep[OF p(2)] p(1) p(3) False
          have "came_from st' v = Some (Some p) \<and> cost_so_far st' p = Some (d - 1) \<and>
              unit_step p v" by (simp add: came')
          then show ?thesis by blast
        qed
        with a show ?thesis by blast
      qed
    qed
    have s': "cost_so_far st' s = Some 0"
      using keep[OF start] by simp
    have srt': "sorted (map snd (pq st'))"
      using srt le by (simp add: pq' sorted_append)
    have q': "\<forall>n p. (n, p) \<in> set (pq st') \<longrightarrow> cost_so_far st' n = Some p \<and> c \<le> p"
    proof (intro allI impI)
      fix n p assume "(n, p) \<in> set (pq st')"
      then have "(n, p) \<in> set (pq st) \<or> (n, p) = (w, c + 1)" by (auto simp add: pq')
      then show "cost_so_far st' n = Some p \<and> c \<le> p"
      proof
        assume "(n, p) \<in> set (pq st)"
        from queue[OF this] keep show ?thesis by blast
      next
        assume "(n, p) = (w, c + 1)"
        then show ?thesis by (simp add: cost')
      qed
    qed
    have b': "\<forall>v d. cost_so_far st' v = Some d \<longrightarrow> d \<le> c + 1"
      using bound by (auto simp add: cost' split: if_splits)
    have cl': "\<forall>v d. cost_so_far st' v = Some d \<longrightarrow> v \<notin> fst ` set (pq st') \<longrightarrow> Some v \<noteq> Some u \<longrightarrow>
        (\<forall>x \<in> set (nbrs grid v). \<exists>e. cost_so_far st' x = Some e \<and> e \<le> d + 1)"
    proof (intro allI impI ballI)
      fix v d x
      assume vd: "cost_so_far st' v = Some d" and nq: "v \<notin> fst ` set (pq st')"
        and vu: "Some v \<noteq> Some u" and x: "x \<in> set (nbrs grid v)"
      from nq have vw: "v \<noteq> w" and nq0: "v \<notin> fst ` set (pq st)"
        by (auto simp add: pq')
      from closed[OF old[OF vd vw] nq0] vu x
      obtain e where "cost_so_far st x = Some e" "e \<le> d + 1" by auto
      with keep show "\<exists>e. cost_so_far st' x = Some e \<and> e \<le> d + 1" by blast
    qed
    have p': "g \<in> dom (cost_so_far st') \<longrightarrow> g \<in> fst ` set (pq st')"
      using pending by (auto simp add: cost' pq' split: if_splits)
    have u': "\<forall>x. Some u = Some x \<longrightarrow> cost_so_far st' x = Some c"
      using keep[OF cu] by simp
    have inv': "search_inv grid s g (Some u) c st'"
      unfolding search_inv_def using t' s' srt' q' b' cl' p' u' by blast
    have wc: "w \<in> cells grid - dom (cost_so_far st)"
      using pathable_cells[OF pw] None by auto
    have "cells grid - dom (cost_so_far st') = (cells grid - dom (cost_so_far st)) - {w}"
      by (auto simp add: cost')
    then have "card (cells grid - dom (cost_so_far st')) = card (cells grid - dom (cost_so_far st)) - 1"
      using wc by simp
    moreover have "card (cells grid - dom (cost_so_far st)) \<ge> 1"
      using wc finite_cells[of grid] by (metis Suc_leI One_nat_def card_gt_0_iff empty_iff finite_Diff)
    ultimately have m: "search_measure grid st' \<le> search_measure grid st"
      by (simp add: search_measure_def pq')
    have "w \<in> dom (cost_so_far st')" "dom (cost_so_far st) \<subseteq> dom (cost_so_far st')"
      by (auto simp add: cost')
    with step inv' m show ?thesis by blast
  qed
qed

lemma relax_all:
  assumes "search_inv grid s g (Some u) c st" "set ws \<subseteq> set (nbrs grid u)"
  shows "\<exists>st'. relax u (map (\<lambda>m. (m, 1)) ws) st = Inr st' \<and>
           search_inv grid s g (Some u) c st' \<and>
           set ws \<subseteq> dom (cost_so_far st') \<and>
           search_measure grid st' \<le> search_measure grid st \<and>
           dom (cost_so_far st) \<subseteq> dom (cost_so_far st')"
  using assms
proof (induction ws arbitrary: st)
  case Nil
  then show ?case by simp
next
  case (Cons w ws)
  from Cons.prems have w: "w \<in> set (nbrs grid u)" and ws: "set ws \<subseteq> set (nbrs grid u)"
    by simp_all
  from relax_step[OF Cons.prems(1) w] obtain st1 where
    st1: "\<And>ns. relax u ((w, 1) # ns) st = relax u ns st1"
      "search_inv grid s g (Some u) c st1" "w \<in> dom (cost_so_far st1)"
      "search_measure grid st1 \<le> search_measure grid st"
      "dom (cost_so_far st) \<subseteq> dom (cost_so_far st1)"
    by blast
  from Cons.IH[OF st1(2) ws] obtain st2 where
    st2: "relax u (map (\<lambda>m. (m, 1)) ws) st1 = Inr st2"
      "search_inv grid s g (Some u) c st2" "set ws \<subseteq> dom (cost_so_far st2)"
      "search_measure grid st2 \<le> search_measure grid st1"
      "dom (cost_so_far st1) \<subseteq> dom (cost_so_far st2)"
    by blast
  have "relax u (map (\<lambda>m. (m, 1)) (w # ws)) st = Inr st2"
    using st1(1) st2(1) by simp
  moreover have "set (w # ws) \<subseteq> dom (cost_so_far st2)"
    using st1(3) st2(3) st2(5) by auto
  moreover have "search_measure grid st2 \<le> search_measure grid st"
    using st1(4) st2(4) by simp
  moreover have "dom (cost_so_far st) \<subseteq> dom (cost_so_far st2)"
    using st1(5) st2(5) by blast
  ultimately show ?case using st2(2) by blast
qed

lemma finish_node:
  assumes inv: "search_inv grid s g (Some u) c st"
    and cov: "set (nbrs grid u) \<subseteq> dom (cost_so_far st)"
  shows "search_top grid s g st"
proof -
  from inv have tree: "tree_inv grid s st"
    and start: "cost_so_far st s = Some 0"
    and srt: "sorted (map snd (pq st))"
    and queue: "\<And>n p. (n, p) \<in> set (pq st) \<Longrightarrow> cost_so_far st n = Some p \<and> c \<le> p"
    and bound: "\<And>v d. cost_so_far st v = Some d \<Longrightarrow> d \<le> c + 1"
    and closed: "\<And>v d. cost_so_far st v = Some d \<Longrightarrow> v \<notin> fst ` set (pq st) \<Longrightarrow> v \<noteq> u \<Longrightarrow>
        (\<forall>w \<in> set (nbrs grid v). \<exists>e. cost_so_far st w = Some e \<and> e \<le> d + 1)"
    and pending: "g \<in> dom (cost_so_far st) \<longrightarrow> g \<in> fst ` set (pq st)"
    and cu: "cost_so_far st u = Some c"
    unfolding search_inv_def by auto
  define c' where "c' = (if pq st = [] then c else snd (hd (pq st)))"
  have cc': "c \<le> c'"
  proof (cases "pq st")
    case Nil
    then show ?thesis by (simp add: c'_def)
  next
    case (Cons x xs)
    then have "(fst x, snd x) \<in> set (pq st)" by simp
    from queue[OF this] show ?thesis using Cons by (simp add: c'_def)
  qed
  have q': "\<forall>n p. (n, p) \<in> set (pq st) \<longrightarrow> cost_so_far st n = Some p \<and> c' \<le> p"
  proof (intro allI impI)
    fix n p assume np: "(n, p) \<in> set (pq st)"
    then obtain x xs where xs: "pq st = x # xs" by (cases "pq st") auto
    with srt have "\<forall>y \<in> set xs. snd x \<le> snd y" by simp
    with np xs have "snd x \<le> p" by auto
    with queue[OF np] xs show "cost_so_far st n = Some p \<and> c' \<le> p"
      by (simp add: c'_def)
  qed
  have b': "\<forall>v d. cost_so_far st v = Some d \<longrightarrow> d \<le> c' + 1"
  proof (intro allI impI)
    fix v d assume "cost_so_far st v = Some d"
    from bound[OF this] cc' show "d \<le> c' + 1" by simp
  qed
  have cl': "\<forall>v d. cost_so_far st v = Some d \<longrightarrow> v \<notin> fst ` set (pq st) \<longrightarrow> Some v \<noteq> None \<longrightarrow>
        (\<forall>w \<in> set (nbrs grid v). \<exists>e. cost_so_far st w = Some e \<and> e \<le> d + 1)"
  proof (intro allI impI ballI)
    fix v d w
    assume vd: "cost_so_far st v = Some d" and nq: "v \<notin> fst ` set (pq st)"
      and w: "w \<in> set (nbrs grid v)"
    show "\<exists>e. cost_so_far st w = Some e \<and> e \<le> d + 1"
    proof (cases "v = u")
      case True
      with vd cu have d: "d = c" by simp
      from w cov True obtain e where e: "cost_so_far st w = Some e" by auto
      from bound[OF e] e d show ?thesis by simp
    next
      case False
      from closed[OF vd nq False] w show ?thesis by blast
    qed
  qed
  have "search_inv grid s g None c' st"
    unfolding search_inv_def using tree start srt q' b' cl' pending by blast
  moreover have "pq st \<noteq> [] \<longrightarrow> c' = snd (hd (pq st))"
    by (simp add: c'_def)
  ultimately show ?thesis unfolding search_top_def by blast
qed

lemma pop_node:
  assumes top: "search_top grid s g st" and pq: "pq st = (u, c) # rest" and ug: "u \<noteq> g"
  shows "search_inv grid s g (Some u) c (st\<lparr>pq := rest\<rparr>)"
proof -
  from top pq have inv: "search_inv grid s g None c st"
    unfolding search_top_def by auto
  then have tree: "tree_inv grid s st"
    and start: "cost_so_far st s = Some 0"
    and srt: "sorted (map snd (pq st))"
    and queue: "\<And>n p. (n, p) \<in> set (pq st) \<Longrightarrow> cost_so_far st n = Some p \<and> c \<le> p"
    and bound: "\<And>v d. cost_so_far st v = Some d \<Longrightarrow> d \<le> c + 1"
    and closed: "\<And>v d. cost_so_far st v = Some d \<Longrightarrow> v \<notin> fst ` set (pq st) \<Longrightarrow>
        (\<forall>w \<in> set (nbrs grid v). \<exists>e. cost_so_far st w = Some e \<and> e \<le> d + 1)"
    and pending: "g \<in> dom (cost_so_far st) \<longrightarrow> g \<in> fst ` set (pq st)"
    unfolding search_inv_def by auto
  let ?st = "st\<lparr>pq := rest\<rparr>"
  have t': "tree_inv grid s ?st"
    using tree by (simp add: tree_inv_def)
  have s': "cost_so_far ?st s = Some 0"
    using start by simp
  have srt': "sorted (map snd (pq ?st))"
    using srt pq by simp
  have q': "\<forall>n p. (n, p) \<in> set (pq ?st) \<longrightarrow> cost_so_far ?st n = Some p \<and> c \<le> p"
  proof (intro allI impI)
    fix n p assume "(n, p) \<in> set (pq ?st)"
    then have "(n, p) \<in> set (pq st)" using pq by simp
    from queue[OF this] show "cost_so_far ?st n = Some p \<and> c \<le> p" by simp
  qed
  have b': "\<forall>v d. cost_so_far ?st v = Some d \<longrightarrow> d \<le> c + 1"
    using bound by simp
  have cl': "\<forall>v d. cost_so_far ?st v = Some d \<longrightarrow> v \<notin> fst ` set (pq ?st) \<longrightarrow> Some v \<noteq> Some u \<longrightarrow>
        (\<forall>w \<in> set (nbrs grid v). \<exists>e. cost_so_far ?st w = Some e \<and> e \<le> d + 1)"
  proof (intro allI impI)
    fix v d
    assume vd: "cost_so_far ?st v = Some d" and nq: "v \<notin> fst ` set (pq ?st)"
      and vu: "Some v \<noteq> Some u"
    from nq vu pq have "v \<notin> fst ` set (pq st)" by auto
    from closed[OF _ this, of d] vd
    show "\<forall>w \<in> set (nbrs grid v). \<exists>e. cost_so_far ?st w = Some e \<and> e \<le> d + 1" by simp
  qed
  have p': "g \<in> dom (cost_so_far ?st) \<longrightarrow> g \<in> fst ` set (pq ?st)"
    using pending pq ug by auto
  have u': "\<forall>x. Some u = Some x \<longrightarrow> cost_so_far ?st x = Some c"
    using queue[of u c] pq by simp
  show ?thesis
    unfolding search_inv_def using t' s' srt' q' b' cl' p' u' by blast
qed

lemma path_reach:
  assumes inv: "search_inv grid s g None c st"
    and q: "q \<noteq> []" "hd q = s" "list_all (pathable grid) q" "successively unit_step q"
  shows "(\<exists>d. cost_so_far st (last q) = Some d \<and> d \<le> int (length q) - 1) \<or>
         (pq st \<noteq> [] \<and> c \<le> int (length q) - 1)"
  using q
proof (induction q rule: rev_nonempty_induct)
  case (single x)
  with inv show ?case by (simp add: search_inv_def)
next
  case (snoc x xs)
  from inv have
    queue: "\<And>n p. (n, p) \<in> set (pq st) \<Longrightarrow> cost_so_far st n = Some p \<and> c \<le> p"
    and closed: "\<And>v d. cost_so_far st v = Some d \<Longrightarrow> v \<notin> fst ` set (pq st) \<Longrightarrow>
        (\<forall>w \<in> set (nbrs grid v). \<exists>e. cost_so_far st w = Some e \<and> e \<le> d + 1)"
    unfolding search_inv_def by auto
  from snoc.prems snoc.hyps have xs: "hd xs = s" "list_all (pathable grid) xs"
    "successively unit_step xs" and px: "pathable grid x" and st: "unit_step (last xs) x"
    by (simp_all add: successively_append_iff)
  from snoc.IH[OF xs] show ?case
  proof
    assume "\<exists>d. cost_so_far st (last xs) = Some d \<and> d \<le> int (length xs) - 1"
    then obtain d where d: "cost_so_far st (last xs) = Some d" "d \<le> int (length xs) - 1"
      by blast
    show ?thesis
    proof (cases "last xs \<in> fst ` set (pq st)")
      case True
      then obtain p where p: "(last xs, p) \<in> set (pq st)" by force
      from queue[OF p] d have "c \<le> d" by simp
      with d(2) p show ?thesis by auto
    next
      case False
      have "x \<in> set (nbrs grid (last xs))"
        using px st by (simp add: nbrs_iff)
      with closed[OF d(1) False] obtain e where "cost_so_far st x = Some e" "e \<le> d + 1"
        by blast
      with d(2) show ?thesis by simp
    qed
  next
    assume "pq st \<noteq> [] \<and> c \<le> int (length xs) - 1"
    then show ?thesis by simp
  qed
qed

lemma search_total:
  assumes rect: "rectangular grid" and top: "search_top grid s g st"
  shows "\<exists>b st'. search grid (int (length grid)) (int (length (hd grid))) g st = Some (Inr (b, st')) \<and>
           (b \<longrightarrow> tree_inv grid s st' \<and>
                 (\<exists>c. cost_so_far st' g = Some c \<and>
                      (\<forall>q. is_path grid s g q \<longrightarrow> c + 1 \<le> int (length q)))) \<and>
           (\<not> b \<longrightarrow> (\<forall>q. \<not> is_path grid s g q))"
  using top
proof (induction "search_measure grid st" arbitrary: st rule: less_induct)
  case less
  note top = less.prems
  show ?case
  proof (cases "pq st")
    case Nil
    from top Nil obtain c where inv: "search_inv grid s g None c st"
      unfolding search_top_def by blast
    have "\<not> is_path grid s g q" for q
    proof
      assume "is_path grid s g q"
      then have q: "q \<noteq> []" "hd q = s" "list_all (pathable grid) q" "successively unit_step q"
        and l: "last q = g"
        by (simp_all add: is_path_def)
      from path_reach[OF inv q] Nil l have "g \<in> dom (cost_so_far st)" by auto
      with inv Nil show False by (simp add: search_inv_def)
    qed
    moreover have "search grid (int (length grid)) (int (length (hd grid))) g st = Some (Inr (False, st))"
      using Nil by (subst search.simps) (simp add: is_empty_def)
    ultimately show ?thesis by blast
  next
    case (Cons x rest)
    obtain u c where x: "x = (u, c)" by (cases x)
    have pq: "pq st = (u, c) # rest" using Cons x by simp
    from top pq have inv: "search_inv grid s g None c st"
      unfolding search_top_def by auto
    show ?thesis
    proof (cases "u = g")
      case True
      have r: "search grid (int (length grid)) (int (length (hd grid))) g st =
               Some (Inr (True, st\<lparr>pq := rest\<rparr>))"
        using pq True by (subst search.simps) (simp add: is_empty_def get_def)
      have t: "tree_inv grid s (st\<lparr>pq := rest\<rparr>)"
        using inv by (simp add: search_inv_def tree_inv_def)
      have "(g, c) \<in> set (pq st)"
        using pq True by simp
      with inv have cg: "cost_so_far st g = Some c"
        unfolding search_inv_def by blast
      have "c + 1 \<le> int (length q)" if "is_path grid s g q" for q
      proof -
        from that have q: "q \<noteq> []" "hd q = s" "list_all (pathable grid) q" "successively unit_step q"
          and l: "last q = g"
          by (simp_all add: is_path_def)
        from path_reach[OF inv q] l cg show ?thesis by auto
      qed
      with r t cg show ?thesis by auto
    next
      case False
      let ?st1 = "st\<lparr>pq := rest\<rparr>"
      from pop_node[OF top pq False] have inv1: "search_inv grid s g (Some u) c ?st1" .
      from relax_all[OF inv1 subset_refl] obtain st2 where
        st2: "relax u (map (\<lambda>m. (m, 1)) (nbrs grid u)) ?st1 = Inr st2"
          "search_inv grid s g (Some u) c st2" "set (nbrs grid u) \<subseteq> dom (cost_so_far st2)"
          "search_measure grid st2 \<le> search_measure grid ?st1"
        by blast
      have e: "expand grid (int (length grid)) (int (length (hd grid))) u ?st1 = Inr st2"
        unfolding expand_def get_valid_neighbors_rect[OF rect] using st2(1) by simp
      have r: "search grid (int (length grid)) (int (length (hd grid))) g st =
               search grid (int (length grid)) (int (length (hd grid))) g st2"
        using pq False e by (subst search.simps) (simp add: is_empty_def get_def)
      have "search_measure grid ?st1 < search_measure grid st"
        using pq by (simp add: search_measure_def)
      with st2(4) have m: "search_measure grid st2 < search_measure grid st" by simp
      from less.hyps[OF m finish_node[OF st2(2) st2(3)]] r show ?thesis by simp
    qed
  qed
qed

lemma reconstruct_tree:
  assumes tree: "tree_inv grid s st"
  shows "cost_so_far st v = Some d \<Longrightarrow>
         \<exists>p. reconstruct (came_from st) (Some v) acc = Some (acc @ p) \<and> p \<noteq> [] \<and> hd p = v \<and>
             last p = s \<and> int (length p) = d + 1 \<and> list_all (pathable grid) p \<and>
             successively (\<lambda>a b. unit_step b a) p"
proof (induction "nat d" arbitrary: v d acc rule: less_induct)
  case less
  from tree less.prems have pv: "pathable grid v" and d0: "0 \<le> d" and
    alt: "(v = s \<and> d = 0 \<and> came_from st v = Some None) \<or>
         (\<exists>p. came_from st v = Some (Some p) \<and> cost_so_far st p = Some (d - 1) \<and> unit_step p v)"
    unfolding tree_inv_def by blast+
  from alt show ?case
  proof
    assume a: "v = s \<and> d = 0 \<and> came_from st v = Some None"
    have "reconstruct (came_from st) (Some v) acc = Some (acc @ [v])"
      using a by (subst reconstruct.simps, simp add: dict_get_def, subst reconstruct.simps, simp)
    with a pv show ?thesis by simp
  next
    assume "\<exists>p. came_from st v = Some (Some p) \<and> cost_so_far st p = Some (d - 1) \<and> unit_step p v"
    then obtain u where u: "came_from st v = Some (Some u)" "cost_so_far st u = Some (d - 1)"
      "unit_step u v" by blast
    from tree u(2) have "0 \<le> d - 1" unfolding tree_inv_def by blast
    then have "nat (d - 1) < nat d" by simp
    from less.hyps[OF this u(2), of "acc @ [v]"] obtain p where
      p: "reconstruct (came_from st) (Some u) (acc @ [v]) = Some ((acc @ [v]) @ p)"
        "p \<noteq> []" "hd p = u" "last p = s" "int (length p) = d - 1 + 1"
        "list_all (pathable grid) p" "successively (\<lambda>a b. unit_step b a) p"
      by blast
    have "reconstruct (came_from st) (Some v) acc = Some (acc @ (v # p))"
      using u(1) p(1) by (subst reconstruct.simps) (simp add: dict_get_def)
    moreover have "successively (\<lambda>a b. unit_step b a) (v # p)"
      using p(2,3,7) u(3) by (cases p) simp_all
    ultimately show ?thesis
      using p(2,4,5,6) pv by (intro exI[of _ "v # p"]) simp
  qed
qed

lemma node_valid_rect:
  assumes "rectangular grid"
  shows "node_valid grid (int (length grid)) (int (length (hd grid))) n = Inr (pathable grid n)"
proof (cases "in_grid grid n")
  case True
  then have "in_grid grid (fst n, snd n)" by simp
  from grid_at_in_grid[OF assms this] True show ?thesis
    by (simp add: node_valid_def pathable_def in_grid_def)
next
  case False
  then show ?thesis
    by (auto simp add: node_valid_def pathable_def in_grid_def)
qed

lemma init_top:
  assumes "pathable grid s"
  shows "search_top grid s g
           \<lparr>pq = put [] s 0, came_from = [s \<mapsto> None], cost_so_far = [s \<mapsto> 0]\<rparr>"
proof -
  have "search_inv grid s g None 0
           \<lparr>pq = [(s, 0)], came_from = [s \<mapsto> None], cost_so_far = [s \<mapsto> 0]\<rparr>"
    unfolding search_inv_def tree_inv_def using assms by (auto split: if_splits)
  then show ?thesis
    unfolding search_top_def by (auto simp add: put_def)
qed

lemma is_path_rev:
  assumes "p \<noteq> []" "hd p = g" "last p = s" "list_all (pathable grid) p"
    "successively (\<lambda>a b. unit_step b a) p"
  shows "is_path grid s g (rev p)"
  using assms by (simp add: is_path_def hd_rev last_rev successively_rev list_all_iff)

lemma dijkstra_body_correct:
  assumes rect: "rectangular grid" and ps: "pathable grid s"
  shows "\<exists>p. dijkstra_body grid (int (length grid)) (int (length (hd grid))) s g = Some (Inr p) \<and>
           (if \<exists>q. is_path grid s g q
            then is_path grid s g p \<and> (\<forall>q. is_path grid s g q \<longrightarrow> length p \<le> length q)
            else p = [])"
proof -
  from search_total[OF rect init_top[OF ps, of g]] obtain b st' where
    r: "search grid (int (length grid)) (int (length (hd grid))) g
          \<lparr>pq = put [] s 0, came_from = [s \<mapsto> None], cost_so_far = [s \<mapsto> 0]\<rparr> =
        Some (Inr (b, st'))"
    and found: "b \<Longrightarrow> tree_inv grid s st' \<and>
                 (\<exists>c. cost_so_far st' g = Some c \<and>
                      (\<forall>q. is_path grid s g q \<longrightarrow> c + 1 \<le> int (length q)))"
    and nofound: "\<not> b \<Longrightarrow> (\<forall>q. \<not> is_path grid s g q)"
    by blast
  show ?thesis
  proof (cases b)
    case False
    from nofound[OF False] r False show ?thesis
      by (simp add: dijkstra_body_def)
  next
    case True
    from found[OF True] obtain c where tree: "tree_inv grid s st'"
      and c: "cost_so_far st' g = Some c"
      and least: "\<And>q. is_path grid s g q \<Longrightarrow> c + 1 \<le> int (length q)"
      by blast
    from reconstruct_tree[OF tree c, of "[]"] obtain p where
      p: "reconstruct (came_from st') (Some g) [] = Some p" "p \<noteq> []" "hd p = g"
        "last p = s" "int (length p) = c + 1" "list_all (pathable grid) p"
        "successively (\<lambda>a b. unit_step b a) p"
      by auto
    have ip: "is_path grid s g (rev p)"
      using p(2-4,6,7) by (rule is_path_rev)
    have first: "py_index (rev p) 0 = Inr s"
      using p(2,4) by (simp add: py_index_def hd_rev[symmetric] hd_conv_nth)
    have res: "dijkstra_body grid (int (length grid)) (int (length (hd grid))) s g = Some (Inr (rev p))"
      using r True p(1) first by (simp add: dijkstra_body_def)
    have "length (rev p) \<le> length q" if "is_path grid s g q" for q
      using least[OF that] p(5) by simp
    with res ip show ?thesis by auto
  qed
qed

lemma is_path_endpoints:
  assumes "is_path grid s g q"
  shows "pathable grid s" "pathable grid g"
proof -
  from assms have "q \<noteq> []" "hd q = s" "last q = g" "\<forall>x \<in> set q. pathable grid x"
    by (simp_all add: is_path_def list_all_iff)
  then show "pathable grid s" "pathable grid g"
    using hd_in_set last_in_set by blast+
qed

lemma dijkstra_start:
  assumes rect: "rectangular grid"
  shows "dijkstra grid s g =
           (if \<not> pathable grid s then Some (Inr [])
            else if \<not> pathable grid g then Some (Inr [])
            else dijkstra_body grid (int (length grid)) (int (length (hd grid))) s g)"
proof -
  from rect have "grid \<noteq> []" by (simp add: rectangular_def)
  then have "py_index grid 0 = Inr (hd grid)"
    by (simp add: py_index_def hd_conv_nth)
  then show ?thesis
    by (simp add: dijkstra_def node_valid_rect[OF rect])
qed

lemma dijkstra_correct:
  assumes rect: "rectangular grid"
  shows "\<exists>p. dijkstra grid s g = Some (Inr p) \<and>
           (if \<exists>q. is_path grid s g q
            then is_path grid s g p \<and> (\<forall>q. is_path grid s g q \<longrightarrow> length p \<le> length q)
            else p = [])"
proof (cases "pathable grid s \<and> pathable grid g")
  case True
  with dijkstra_body_correct[OF rect, of s g] show ?thesis
    by (simp add: dijkstra_start[OF rect])
next
  case False
  with is_path_endpoints[of grid s g] have "\<not> (\<exists>q. is_path grid s g q)" by blast
  with False show ?thesis
    by (auto simp add: dijkstra_start[OF rect])
qed

lemma rectangular_grid_map: "rectangular grid_map"
  by (simp add: rectangular_def grid_map_def)


section \<open>Lemmas about the tracker and the action translator\<close>

subsection \<open>List search and the heading table\<close>

lemma first_index_some:
  "first_index xs x = Some i \<Longrightarrow> i < length xs \<and> xs ! i = x"
proof (induction xs arbitrary: i)
  case Nil
  then show ?case by simp
next
  case (Cons y ys)
  show ?case
  proof (cases "y = x")
    case True
    with Cons.prems show ?thesis by simp
  next
    case False
    with Cons.prems obtain j where j: "first_index ys x = Some j" "i = Suc j"
      by auto
    from Cons.IH[OF j(1)] j(2) show ?thesis by simp
  qed
qed

lemma py_list_index_some:
  assumes "py_list_index xs x start = Inr i" and "0 \<le> start"
  shows "start \<le> i \<and> i < int (length xs) \<and> xs ! nat i = x"
proof -
  from assms obtain k where k: "first_index (drop (nat start) xs) x = Some k"
    and i: "i = start + int k"
    by (auto simp add: py_list_index_def Let_def split: option.splits)
  from first_index_some[OF k] have a: "k < length xs - nat start"
    and b: "drop (nat start) xs ! k = x"
    by simp_all
  from a have "nat start \<le> length xs" by simp
  with b have "xs ! (nat start + k) = x" by simp
  with i assms(2) a show ?thesis
    by (simp add: nat_add_distrib)
qed

lemma target_theta_some:
  assumes "target_theta L (fst b - fst a) (snd b - snd a) = Some t"
  shows "unit_step a b"
proof -
  from assms have "(snd b - snd a = 1 \<and> fst b - fst a = 0) \<or>
      (snd b - snd a = - 1 \<and> fst b - fst a = 0) \<or>
      (fst b - fst a = 1 \<and> snd b - snd a = 0) \<or>
      (fst b - fst a = - 1 \<and> snd b - snd a = 0)"
    unfolding target_theta_def by (simp split: if_splits)
  then show ?thesis
    unfolding unit_step_def by auto
qed

lemma segment_action_forward:
  assumes "segment_action L a b theta = ''forward''"
  shows "unit_step a b"
proof (cases "target_theta L (fst b - fst a) (snd b - snd a)")
  case None
  with assms show ?thesis by (simp add: segment_action_def)
next
  case (Some t)
  then show ?thesis by (rule target_theta_some)
qed

lemma segment_action_protocol: "segment_action L a b theta \<in> set protocol_actions"
  unfolding segment_action_def protocol_actions_def Let_def
  by (simp split: option.splits)

lemma target_theta_unit_step:
  assumes "unit_step a b"
  shows "target_theta L (fst b - fst a) (snd b - snd a) = Some (step_heading L a b)"
proof -
  obtain r c where a: "a = (r, c)" by (cases a)
  obtain x y where b: "b = (x, y)" by (cases b)
  from assms have "(x, y) = (r, c + 1) \<or> (x, y) = (r, c - 1) \<or> (x, y) = (r + 1, c) \<or> (x, y) = (r - 1, c)"
    unfolding a b unit_step_iff .
  then show ?thesis
    by (auto simp add: a b target_theta_def step_heading_def)
qed

lemma segment_action_unit_step:
  assumes "unit_step a b"
  shows "segment_action L a b theta =
           (let e = angular_error L (step_heading L a b) theta in
            if m_radians L (m_float L 40) < \<bar>e\<bar> \<and> m_float L 0 < e then ''turn_left''
            else if m_radians L (m_float L 40) < \<bar>e\<bar> then ''turn_right''
            else ''forward'')"
  by (simp add: segment_action_def target_theta_unit_step[OF assms] Let_def
      angular_error_def normalize_angle_def)

lemma unit_step_neq: "unit_step a b \<Longrightarrow> a \<noteq> b"
  by (auto simp add: unit_step_def)

subsection \<open>What \<open>get_action_from_path\<close> and the cursor advancement can change\<close>

text \<open>
  \<open>get_action_from_path\<close> changes at most the cursor; it answers \<open>forward\<close> only for a
  unit step from the cell it was given; and it changes nothing when the cell it was
  given is the one under the cursor.
\<close>

lemma get_action_effect:
  assumes r: "get_action_from_path L st pos theta sens = ((a, n), st')"
  shows "st' = st\<lparr>current_path_index := current_path_index st'\<rparr>"
    and "a = ''forward'' \<Longrightarrow>
           0 \<le> current_path_index st' \<and>
           current_path_index st' < int (length (planned_path st)) - 1 \<and>
           pos = Some (planned_path st ! nat (current_path_index st')) \<and>
           unit_step (planned_path st ! nat (current_path_index st'))
                     (planned_path st ! nat (current_path_index st' + 1))"
    and "0 \<le> current_path_index st \<Longrightarrow>
         current_path_index st < int (length (planned_path st)) \<Longrightarrow>
         pos = Some (planned_path st ! nat (current_path_index st)) \<Longrightarrow> st' = st"
    and "a \<in> set protocol_actions"
proof -
  let ?early = "planned_path st = [] \<or> pos = None \<or> pos = goal_grid_pos st \<or>
      \<not> (0 \<le> current_path_index st \<and> current_path_index st < int (length (planned_path st)) - 1)"
  let ?i = "current_path_index st"
  have all: "st' = st\<lparr>current_path_index := current_path_index st'\<rparr> \<and>
    (a = ''forward'' \<longrightarrow>
           0 \<le> current_path_index st' \<and>
           current_path_index st' < int (length (planned_path st)) - 1 \<and>
           pos = Some (planned_path st ! nat (current_path_index st')) \<and>
           unit_step (planned_path st ! nat (current_path_index st'))
                     (planned_path st ! nat (current_path_index st' + 1))) \<and>
    (0 \<le> current_path_index st \<longrightarrow>
         current_path_index st < int (length (planned_path st)) \<longrightarrow>
         pos = Some (planned_path st ! nat (current_path_index st)) \<longrightarrow> st' = st) \<and>
    a \<in> set protocol_actions"
  proof (cases ?early)
    case True
    with r have "a = ''stop''" "st' = st"
      by (auto simp add: get_action_from_path_def split: if_splits)
    then show ?thesis by (simp add: protocol_actions_def)
  next
    case False
    then have ne: "planned_path st \<noteq> []" and p: "pos \<noteq> None" and g: "pos \<noteq> goal_grid_pos st"
      and i: "0 \<le> ?i" "?i < int (length (planned_path st)) - 1"
      by auto
    show ?thesis
    proof (cases "pos = Some (planned_path st ! nat ?i)")
      case True
      with r ne p g i have a: "a = segment_action L (planned_path st ! nat ?i)
          (planned_path st ! nat (?i + 1)) theta" and s: "st' = st"
        by (auto simp add: get_action_from_path_def Let_def)
      from segment_action_forward[of L _ _ theta] a
      have "a = ''forward'' \<longrightarrow> unit_step (planned_path st ! nat ?i) (planned_path st ! nat (?i + 1))"
        by auto
      with a s i True show ?thesis
        by (simp add: segment_action_protocol)
    next
      case neq: False
      show ?thesis
      proof (cases "py_list_index (planned_path st) (the pos) ?i")
        case (Inl e)
        with r ne p g i neq have "a = ''stop''" "st' = st"
          by (auto simp add: get_action_from_path_def Let_def)
        with neq show ?thesis by (simp add: protocol_actions_def)
      next
        case (Inr j)
        from py_list_index_some[OF Inr i(1)] have j: "?i \<le> j" "j < int (length (planned_path st))"
          "planned_path st ! nat j = the pos" by simp_all
        from j(3) p have pj: "pos = Some (planned_path st ! nat j)" by auto
        show ?thesis
        proof (cases "j \<ge> int (length (planned_path st)) - 1")
          case True
          with r ne p g i neq Inr have "a = ''stop''" "st' = st\<lparr>current_path_index := j\<rparr>"
            by (auto simp add: get_action_from_path_def Let_def)
          with neq show ?thesis by (simp add: protocol_actions_def)
        next
          case False
          with r ne p g i neq Inr have a: "a = segment_action L (planned_path st ! nat j)
              (planned_path st ! nat (j + 1)) theta" and s: "st' = st\<lparr>current_path_index := j\<rparr>"
            by (auto simp add: get_action_from_path_def Let_def)
          from segment_action_forward[of L _ _ theta] a
          have "a = ''forward'' \<longrightarrow> unit_step (planned_path st ! nat j) (planned_path st ! nat (j + 1))"
            by auto
          with a s i j(1) False pj neq show ?thesis
            by (simp add: segment_action_protocol)
        qed
      qed
    qed
  qed
  from all show "st' = st\<lparr>current_path_index := current_path_index st'\<rparr>" by blast
  from all show "a = ''forward'' \<Longrightarrow>
           0 \<le> current_path_index st' \<and>
           current_path_index st' < int (length (planned_path st)) - 1 \<and>
           pos = Some (planned_path st ! nat (current_path_index st')) \<and>
           unit_step (planned_path st ! nat (current_path_index st'))
                     (planned_path st ! nat (current_path_index st' + 1))" by blast
  from all show "0 \<le> current_path_index st \<Longrightarrow>
         current_path_index st < int (length (planned_path st)) \<Longrightarrow>
         pos = Some (planned_path st ! nat (current_path_index st)) \<Longrightarrow> st' = st" by blast
  from all show "a \<in> set protocol_actions" by blast
qed

text \<open>
  After an answer \<open>forward\<close> the advancement block does nothing: it asks for the actual
  position to be the path position and also the next cell of the path, which is a
  unit step away from the path position.
\<close>

lemma advance_cursor_noop:
  assumes "a = ''forward'' \<Longrightarrow>
           0 \<le> current_path_index st \<and>
           current_path_index st < int (length (planned_path st)) - 1 \<and>
           current_robot_grid_pos_path st = Some (planned_path st ! nat (current_path_index st)) \<and>
           unit_step (planned_path st ! nat (current_path_index st))
                     (planned_path st ! nat (current_path_index st + 1))"
  shows "advance_cursor a st = Inr st"
proof (cases "a = ''forward''")
  case False
  then show ?thesis by (simp add: advance_cursor_def)
next
  case True
  from assms[OF True] have i: "0 \<le> current_path_index st"
    "current_path_index st < int (length (planned_path st)) - 1"
    and p: "current_robot_grid_pos_path st = Some (planned_path st ! nat (current_path_index st))"
    and u: "unit_step (planned_path st ! nat (current_path_index st))
                     (planned_path st ! nat (current_path_index st + 1))"
    by simp_all
  from i have n: "py_index (planned_path st) (current_path_index st + 1) =
      Inr (planned_path st ! nat (current_path_index st + 1))"
    by (simp add: py_index_def)
  from unit_step_neq[OF u] p have "current_robot_grid_pos_actual st = current_robot_grid_pos_path st \<Longrightarrow>
      current_robot_grid_pos_actual st \<noteq> Some (planned_path st ! nat (current_path_index st + 1))"
    by simp
  then show ?thesis
    unfolding advance_cursor_def n by auto
qed

lemma determine_action_effect:
  "\<exists>a j. determine_action L msg st = Inr (a, st\<lparr>current_path_index := j\<rparr>) \<and>
         a \<in> set protocol_actions \<and> (path_synced st \<longrightarrow> j = current_path_index st)"
proof (cases "planned_path st \<noteq> [] \<and> current_robot_grid_pos_path st \<noteq> None \<and>
         goal_grid_pos st \<noteq> None")
  case False
  then have "determine_action L msg st = Inr (''stop'', st)"
    by (auto simp add: determine_action_def)
  then show ?thesis
    by (intro exI[of _ "''stop''"] exI[of _ "current_path_index st"])
       (simp add: protocol_actions_def)
next
  case True
  obtain a n st1 where g: "get_action_from_path L st (current_robot_grid_pos_path st)
      (theta_rad msg) (sensors_binary msg) = ((a, n), st1)"
    by (metis surj_pair)
  note e = get_action_effect[OF g]
  define j where "j = current_path_index st1"
  from e(1) have s1: "st1 = st\<lparr>current_path_index := j\<rparr>" by (simp add: j_def)
  have "advance_cursor a st1 = Inr st1"
  proof (rule advance_cursor_noop)
    assume "a = ''forward''"
    from e(2)[OF this] show "0 \<le> current_path_index st1 \<and>
           current_path_index st1 < int (length (planned_path st1)) - 1 \<and>
           current_robot_grid_pos_path st1 = Some (planned_path st1 ! nat (current_path_index st1)) \<and>
           unit_step (planned_path st1 ! nat (current_path_index st1))
                     (planned_path st1 ! nat (current_path_index st1 + 1))"
      unfolding s1 by simp
  qed
  with g True have d: "determine_action L msg st = Inr (a, st\<lparr>current_path_index := j\<rparr>)"
    by (simp add: determine_action_def s1)
  have "j = current_path_index st" if "path_synced st"
  proof -
    from that True have "0 \<le> current_path_index st"
      "current_path_index st < int (length (planned_path st))"
      "current_robot_grid_pos_path st = Some (planned_path st ! nat (current_path_index st))"
      by (auto simp add: path_synced_def)
    from e(3)[OF this] show ?thesis by (simp add: j_def)
  qed
  with d e(4) show ?thesis by blast
qed

text \<open>The cursor moves only through the re-alignment of \<open>get_action_from_path\<close>, which
  moves it forward to the position of the cell the function was given.\<close>

lemma get_action_realign:
  assumes r: "get_action_from_path L st pos theta sens = ((a, n), st')"
    and c: "current_path_index st' \<noteq> current_path_index st"
  shows "pos = Some (planned_path st ! nat (current_path_index st')) \<and>
         pos \<noteq> goal_grid_pos st \<and> current_path_index st < current_path_index st'"
proof -
  let ?i = "current_path_index st"
  have early: "\<not> (planned_path st = [] \<or> pos = None \<or> pos = goal_grid_pos st \<or>
      \<not> (0 \<le> ?i \<and> ?i < int (length (planned_path st)) - 1))"
  proof
    assume "planned_path st = [] \<or> pos = None \<or> pos = goal_grid_pos st \<or>
      \<not> (0 \<le> ?i \<and> ?i < int (length (planned_path st)) - 1)"
    with r have "st' = st"
      by (auto simp add: get_action_from_path_def split: if_splits)
    with c show False by simp
  qed
  then have ne: "planned_path st \<noteq> []" and p: "pos \<noteq> None" and g: "pos \<noteq> goal_grid_pos st"
    and i: "0 \<le> ?i" "?i < int (length (planned_path st)) - 1"
    by auto
  have neq: "pos \<noteq> Some (planned_path st ! nat ?i)"
  proof
    assume "pos = Some (planned_path st ! nat ?i)"
    with i have "st' = st"
      by (intro get_action_effect(3)[OF r]) simp_all
    with c show False by simp
  qed
  show ?thesis
  proof (cases "py_list_index (planned_path st) (the pos) ?i")
    case (Inl e)
    with r ne p g i neq have "st' = st"
      by (auto simp add: get_action_from_path_def Let_def)
    with c show ?thesis by simp
  next
    case (Inr j)
    from py_list_index_some[OF Inr i(1)] have j: "?i \<le> j" "planned_path st ! nat j = the pos"
      by simp_all
    from r ne p g i neq Inr have "current_path_index st' = j"
      by (auto simp add: get_action_from_path_def Let_def split: if_splits)
    with j p g c show ?thesis by auto
  qed
qed

lemma determine_action_realign:
  assumes d: "determine_action L msg st = Inr (a, st')"
    and c: "current_path_index st' \<noteq> current_path_index st"
  shows "current_robot_grid_pos_path st = Some (planned_path st ! nat (current_path_index st')) \<and>
         current_robot_grid_pos_path st \<noteq> goal_grid_pos st \<and>
         current_path_index st < current_path_index st'"
proof (cases "planned_path st \<noteq> [] \<and> current_robot_grid_pos_path st \<noteq> None \<and>
         goal_grid_pos st \<noteq> None")
  case False
  with d have "st' = st" by (auto simp add: determine_action_def)
  with c show ?thesis by simp
next
  case True
  obtain a1 n st1 where g: "get_action_from_path L st (current_robot_grid_pos_path st)
      (theta_rad msg) (sensors_binary msg) = ((a1, n), st1)"
    by (metis surj_pair)
  note e = get_action_effect[OF g]
  from e(1) have s1: "planned_path st1 = planned_path st"
    "current_robot_grid_pos_path st1 = current_robot_grid_pos_path st"
    by (metis pstate.select_convs(4) pstate.surjective pstate.update_convs(5),
        metis pstate.select_convs(2) pstate.surjective pstate.update_convs(5))
  have "advance_cursor a1 st1 = Inr st1"
  proof (rule advance_cursor_noop)
    assume "a1 = ''forward''"
    from e(2)[OF this] show "0 \<le> current_path_index st1 \<and>
           current_path_index st1 < int (length (planned_path st1)) - 1 \<and>
           current_robot_grid_pos_path st1 = Some (planned_path st1 ! nat (current_path_index st1)) \<and>
           unit_step (planned_path st1 ! nat (current_path_index st1))
                     (planned_path st1 ! nat (current_path_index st1 + 1))"
      unfolding s1 by simp
  qed
  with g True d have "st' = st1"
    by (simp add: determine_action_def)
  with get_action_realign[OF g] c show ?thesis by blast
qed

lemma determine_action_eval:
  assumes "planned_path st \<noteq> []" and "current_robot_grid_pos_path st = Some p"
    and "goal_grid_pos st \<noteq> None"
    and "get_action_from_path L st (Some p) (theta_rad msg) (sensors_binary msg) = ((a, n), st1)"
    and "advance_cursor a st1 = Inr st2"
  shows "determine_action L msg st = Inr (a, st2)"
  using assms by (simp add: determine_action_def)

subsection \<open>The steps of \<open>process_status\<close>\<close>

lemma update_belief_fields:
  "current_robot_grid_pos_actual (update_belief msg st) = Some (robot_grid_pos msg)"
  "goal_grid_pos (update_belief msg st) = Some (status_goal_grid_pos msg)"
  "planned_path (update_belief msg st) = planned_path st"
  "current_path_index (update_belief msg st) = current_path_index st"
  "last_replan_time (update_belief msg st) = last_replan_time st"
  "current_robot_grid_pos_path (update_belief msg st) =
     (case current_robot_grid_pos_path st of
        None \<Rightarrow> Some (robot_grid_pos msg) | Some p \<Rightarrow> Some p)"
  by (auto simp add: update_belief_def Let_def split: option.splits)

lemma dijkstra_grid_map_total: "\<exists>p. dijkstra grid_map a g = Some (Inr p)"
  using dijkstra_correct[OF rectangular_grid_map, of a g] by blast

lemma adopt_path_fields:
  "current_robot_grid_pos_actual (adopt_path now a p st) = current_robot_grid_pos_actual st"
  "goal_grid_pos (adopt_path now a p st) = goal_grid_pos st"
  by (auto simp add: adopt_path_def Let_def split: sum.splits)

lemma process_status_steps:
  assumes "replan L now (update_belief msg st) = Some (Inr st2)"
    and "determine_action L msg st2 = Inr (a, st3)"
  shows "process_status L now msg st =
           Some (snd (goal_check (a, st3)),
                 Some (command_to_webots (fst (goal_check (a, st3))) (snd (goal_check (a, st3)))))"
  using assms by (simp add: process_status_def Let_def split: prod.splits)

subsection \<open>The tracker stays consistent\<close>

lemma path_synced_update_belief: "path_synced st \<Longrightarrow> path_synced (update_belief msg st)"
  by (auto simp add: path_synced_def update_belief_fields)

lemma path_synced_adopt_path: "path_synced (adopt_path now a p st)"
proof (cases "p = []")
  case True
  then show ?thesis by (simp add: adopt_path_def path_synced_def)
next
  case False
  show ?thesis
  proof (cases "p ! 0 = a")
    case True
    with False show ?thesis by (simp add: adopt_path_def path_synced_def Let_def)
  next
    case ne: False
    show ?thesis
    proof (cases "py_list_index p a 0")
      case (Inl e)
      with False ne show ?thesis by (simp add: adopt_path_def path_synced_def Let_def)
    next
      case (Inr i)
      from py_list_index_some[OF Inr] have "0 \<le> i" "i < int (length p)" "p ! nat i = a"
        by simp_all
      with False ne Inr show ?thesis by (simp add: adopt_path_def path_synced_def Let_def)
    qed
  qed
qed

lemma replan_total:
  "\<exists>st'. replan L now st = Some (Inr st') \<and>
         current_robot_grid_pos_actual st' = current_robot_grid_pos_actual st \<and>
         goal_grid_pos st' = goal_grid_pos st \<and>
         (path_synced st \<longrightarrow> path_synced st')"
proof (cases "replan_due L now st \<and> current_robot_grid_pos_actual st \<noteq> None \<and>
    goal_grid_pos st \<noteq> None")
  case False
  then have "replan L now st = Some (Inr st)"
    by (auto simp add: replan_def split: option.splits)
  then show ?thesis by simp
next
  case True
  then obtain a g where ag: "current_robot_grid_pos_actual st = Some a" "goal_grid_pos st = Some g"
    by auto
  from dijkstra_grid_map_total[of a g] obtain p where p: "dijkstra grid_map a g = Some (Inr p)" ..
  from True ag p have "replan L now st = Some (Inr (adopt_path now a p st))"
    by (simp add: replan_def)
  then show ?thesis
    by (simp add: adopt_path_fields path_synced_adopt_path)
qed

lemma path_synced_initial: "path_synced initial_pstate"
  by (simp add: path_synced_def initial_pstate_def)

lemma path_synced_on_disconnect: "path_synced (on_disconnect st)"
  by (simp add: path_synced_def on_disconnect_def)

lemma path_synced_on_accept: "path_synced st \<Longrightarrow> path_synced (on_accept st)"
  by (simp add: path_synced_def on_accept_def)

lemma path_synced_goal_check: "path_synced st \<Longrightarrow> path_synced (snd (goal_check (a, st)))"
  by (simp add: path_synced_def goal_check_def)

lemma path_synced_process_status:
  assumes "path_synced st" and "process_status L now msg st = Some (st', out)"
  shows "path_synced st'"
proof -
  from replan_total[of L now "update_belief msg st"] obtain st2 where
    r: "replan L now (update_belief msg st) = Some (Inr st2)"
    and s: "path_synced (update_belief msg st) \<longrightarrow> path_synced st2"
    by blast
  from s path_synced_update_belief[OF assms(1), of msg] have s2: "path_synced st2" by (rule mp)
  from determine_action_effect[of L msg st2] s2 obtain a where
    d: "determine_action L msg st2 = Inr (a, st2)"
    by auto
  from process_status_steps[OF r d] assms(2) have "st' = snd (goal_check (a, st2))"
    by simp
  with path_synced_goal_check[OF s2] show ?thesis by simp
qed

subsection \<open>A first message of a session\<close>

lemma dijkstra_example: "dijkstra grid_map (2, 0) (2, 1) = Some (Inr [(2, 0), (2, 1)])"
  by code_simp

lemma tracking_state_reached:
  "process_status real_lib 0 (status_at (2, 0) (2, 1)) (on_accept initial_pstate) =
   Some (tracking_state,
         Some \<lparr>action = ''forward'', path = [(2, 0), (2, 1)],
               robot_pos_on_path_esp_thinks = Some (2, 0), current_path_idx_esp = 0\<rparr>)"
proof -
  let ?st1 = "update_belief (status_at (2, 0) (2, 1)) (on_accept initial_pstate)"
  have u: "?st1 = \<lparr>current_robot_grid_pos_actual = Some (2, 0),
      current_robot_grid_pos_path = Some (2, 0), goal_grid_pos = Some (2, 1),
      planned_path = [], current_path_index = 0, path_needs_replan = True,
      last_replan_time = 0, conn = True\<rparr>"
    by (simp add: update_belief_def status_at_def on_accept_def initial_pstate_def Let_def)
  have r: "replan real_lib 0 ?st1 = Some (Inr tracking_state)"
    unfolding u
    by (simp add: replan_def replan_due_def dijkstra_example adopt_path_def Let_def
        tracking_state_def)
  have thr: "\<not> 40 * pi / 180 < (0::real)"
    using pi_gt_zero by simp
  have g: "get_action_from_path real_lib tracking_state (Some (2, 0)) 0 [0, 1, 0] =
           ((''forward'', Some (2, 0)), tracking_state)"
    using thr
    by (simp add: get_action_from_path_def tracking_state_def Let_def segment_action_def
        target_theta_def real_lib_def real_atan2_def)
  have a: "advance_cursor ''forward'' tracking_state = Inr tracking_state"
    by (simp add: advance_cursor_def tracking_state_def py_index_def)
  have d: "determine_action real_lib (status_at (2, 0) (2, 1)) tracking_state =
           Inr (''forward'', tracking_state)"
    unfolding determine_action_def
    by (simp add: status_at_def, simp add: tracking_state_def, fold tracking_state_def,
        simp add: g a)
  show ?thesis
    unfolding process_status_steps[OF r d]
    by (simp add: goal_check_def command_to_webots_def tracking_state_def)
qed

text \<open>A message that does not trigger a replan leaves the cursor where it is.\<close>

lemma cursor_kept_without_replan:
  assumes "path_synced st" and "\<not> replan_due L current_time_ms (update_belief msg st)"
  shows "\<exists>st' cmd. process_status L current_time_ms msg st = Some (st', Some cmd) \<and>
           current_path_index st' = current_path_index st \<and>
           current_robot_grid_pos_path st' = current_robot_grid_pos_path (update_belief msg st)"
proof -
  let ?st1 = "update_belief msg st"
  have r: "replan L current_time_ms ?st1 = Some (Inr ?st1)"
    using assms(2) by (simp add: replan_def)
  from determine_action_effect[of L msg ?st1] path_synced_update_belief[OF assms(1), of msg]
  obtain a where d: "determine_action L msg ?st1 = Inr (a, ?st1)"
    by auto
  show ?thesis
    unfolding process_status_steps[OF r d]
    by (simp add: goal_check_def update_belief_fields)
qed

text \<open>A state in which the path position is the reported position but not the cell under
  the cursor: the re-alignment moves the cursor to it.\<close>

lemma realign_example:
  "process_status real_lib 500 (status_at (2, 1) (2, 2))
     (tracking_state\<lparr>current_robot_grid_pos_actual := Some (2, 1),
        current_robot_grid_pos_path := Some (2, 1), goal_grid_pos := Some (2, 2),
        planned_path := [(2, 0), (2, 1), (2, 2)]\<rparr>) =
   Some (tracking_state\<lparr>current_robot_grid_pos_actual := Some (2, 1),
           current_robot_grid_pos_path := Some (2, 1), goal_grid_pos := Some (2, 2),
           planned_path := [(2, 0), (2, 1), (2, 2)], current_path_index := 1\<rparr>,
         Some \<lparr>action = ''forward'', path = [(2, 0), (2, 1), (2, 2)],
               robot_pos_on_path_esp_thinks = Some (2, 1), current_path_idx_esp = 1\<rparr>)"
proof -
  let ?s = "\<lparr>current_robot_grid_pos_actual = Some (2, 1),
      current_robot_grid_pos_path = Some (2, 1), goal_grid_pos = Some (2, 2),
      planned_path = [(2, 0), (2, 1), (2, 2)], current_path_index = 0,
      path_needs_replan = False, last_replan_time = 0, conn = True\<rparr>"
  have u: "update_belief (status_at (2, 1) (2, 2)) ?s = ?s"
    by (simp add: update_belief_def status_at_def Let_def)
  have r: "replan real_lib 500 (update_belief (status_at (2, 1) (2, 2)) ?s) = Some (Inr ?s)"
    unfolding u by (simp add: replan_def replan_due_def real_lib_def REPLAN_INTERVAL_MS_def)
  have thr: "\<not> 40 * pi / 180 < (0::real)"
    using pi_gt_zero by simp
  have i: "py_list_index [(2, 0), (2, 1), (2, 2)] ((2, 1)::cell) 0 = Inr 1"
    by (simp add: py_list_index_def)
  have g: "get_action_from_path real_lib ?s (Some (2, 1)) 0 [0, 1, 0] =
           ((''forward'', Some (2, 1)), ?s\<lparr>current_path_index := 1\<rparr>)"
    using thr
    by (simp add: get_action_from_path_def Let_def i segment_action_def
        target_theta_def real_lib_def real_atan2_def)
  have a: "advance_cursor ''forward'' (?s\<lparr>current_path_index := 1\<rparr>) =
           Inr (?s\<lparr>current_path_index := 1\<rparr>)"
    by (simp add: advance_cursor_def py_index_def)
  have d: "determine_action real_lib (status_at (2, 1) (2, 2)) ?s =
           Inr (''forward'', ?s\<lparr>current_path_index := 1\<rparr>)"
    by (rule determine_action_eval[where p = "(2, 1)" and n = "Some (2, 1)"
          and ?st1.0 = "?s\<lparr>current_path_index := 1\<rparr>"])
       (use g a in \<open>simp_all add: status_at_def\<close>)
  have "process_status real_lib 500 (status_at (2, 1) (2, 2)) ?s =
        Some (?s\<lparr>current_path_index := 1\<rparr>,
         Some \<lparr>action = ''forward'', path = [(2, 0), (2, 1), (2, 2)],
               robot_pos_on_path_esp_thinks = Some (2, 1), current_path_idx_esp = 1\<rparr>)"
    unfolding process_status_steps[OF r d]
    by (simp add: goal_check_def command_to_webots_def)
  then show ?thesis
    by (simp add: tracking_state_def)
qed


section \<open>Lemmas about the motion side\<close>

subsection \<open>ObstacleDetector\<close>

lemma sensor_loop_new:
  assumes "distinct new" and "set new \<subseteq> detected_obstacles d"
    and "sensor_loop r c theta i vs new d = (Inr out, d')"
  shows "distinct out \<and> detected_obstacles d' = detected_obstacles d \<union> set out \<and>
         (\<exists>added. out = new @ added \<and> set added \<inter> detected_obstacles d = {}) \<and>
         recent_obstacles d' = recent_obstacles d"
  using assms
proof (induction vs arbitrary: i new d)
  case Nil
  then show ?case by auto
next
  case (Cons v vs)
  show ?case
  proof (cases "v > DISTANCE_SENSOR_THRESHOLD")
    case False
    with Cons.prems(3) have "sensor_loop r c theta (i + 1) vs new d = (Inr out, d')" by simp
    from Cons.IH[OF Cons.prems(1,2) this] show ?thesis .
  next
    case True
    show ?thesis
    proof (cases "calculate_obstacle_position r c theta i")
      case (Inl e)
      with True Cons.prems(3) show ?thesis by simp
    next
      case (Inr pos)
      show ?thesis
      proof (cases "is_valid_position pos \<and> pos \<notin> detected_obstacles d")
        case False
        with True Inr Cons.prems(3) have "sensor_loop r c theta (i + 1) vs new d = (Inr out, d')"
          by auto
        from Cons.IH[OF Cons.prems(1,2) this] show ?thesis .
      next
        case yes: True
        let ?d = "d\<lparr>detected_obstacles := insert pos (detected_obstacles d)\<rparr>"
        from yes True Inr Cons.prems(3)
        have run: "sensor_loop r c theta (i + 1) vs (new @ [pos]) ?d = (Inr out, d')"
          by simp
        have d1: "distinct (new @ [pos])"
          using Cons.prems(1,2) yes by auto
        have d2: "set (new @ [pos]) \<subseteq> detected_obstacles ?d"
          using Cons.prems(2) by auto
        from Cons.IH[OF d1 d2 run] obtain added where
          o: "distinct out" "detected_obstacles d' = detected_obstacles ?d \<union> set out"
            "out = (new @ [pos]) @ added" "set added \<inter> detected_obstacles ?d = {}"
            "recent_obstacles d' = recent_obstacles ?d"
          by blast
        have "out = new @ (pos # added)" using o(3) by simp
        moreover have "set (pos # added) \<inter> detected_obstacles d = {}"
          using o(4) yes by auto
        moreover have "detected_obstacles d' = detected_obstacles d \<union> set out"
          using o(2,3) by auto
        ultimately show ?thesis using o(1,5) by auto
      qed
    qed
  qed
qed

lemma process_sensor_readings_new:
  assumes "process_sensor_readings p theta vs d = (Inr out, d')"
  shows "distinct out \<and> set out \<inter> detected_obstacles d = {} \<and>
         detected_obstacles d' = detected_obstacles d \<union> set out \<and>
         recent_obstacles d' = recent_obstacles d"
proof -
  obtain r c where rc: "world_to_grid (pose_x p) (pose_z p) = (r, c)"
    by (cases "world_to_grid (pose_x p) (pose_z p)")
  from assms have "sensor_loop r c theta 0 vs [] d = (Inr out, d')"
    by (simp add: process_sensor_readings_def OBSTACLE_DETECTION_ENABLED_def rc)
  from sensor_loop_new[OF _ _ this] show ?thesis by auto
qed

lemma run_detector_distinct:
  assumes "distinct (recent_obstacles d)" and "set (recent_obstacles d) \<subseteq> detected_obstacles d"
  shows "distinct (sensed_cells (run_detector cs d)) \<and>
         set (sensed_cells (run_detector cs d)) \<inter> detected_obstacles d = {} \<and>
         distinct (reported_cells (run_detector cs d)) \<and>
         set (reported_cells (run_detector cs d)) \<subseteq>
           set (recent_obstacles d) \<union> set (sensed_cells (run_detector cs d))"
  using assms
proof (induction cs arbitrary: d)
  case Nil
  then show ?case by simp
next
  case (Cons call cs)
  show ?case
  proof (cases call)
    case (Sense p theta vs)
    obtain res d1 where pr: "process_sensor_readings p theta vs d = (res, d1)"
      by (cases "process_sensor_readings p theta vs d")
    show ?thesis
    proof (cases res)
      case (Inl e)
      with Sense pr show ?thesis by simp
    next
      case (Inr new)
      from process_sensor_readings_new[OF pr[unfolded Inr]]
      have n: "distinct new" "set new \<inter> detected_obstacles d = {}"
        "detected_obstacles d1 = detected_obstacles d \<union> set new"
        "recent_obstacles d1 = recent_obstacles d"
        by auto
      define d2 where "d2 = (if new \<noteq> [] then add_recent_obstacles new d1 else d1)"
      have r2: "recent_obstacles d2 = recent_obstacles d @ new"
        and t2: "detected_obstacles d2 = detected_obstacles d \<union> set new"
        using n(3,4) by (auto simp add: d2_def add_recent_obstacles_def)
      have a1: "distinct (recent_obstacles d2)"
        using Cons.prems n(1,2) by (auto simp add: r2)
      have a2: "set (recent_obstacles d2) \<subseteq> detected_obstacles d2"
        using Cons.prems(2) by (auto simp add: r2 t2)
      from Cons.IH[OF a1 a2]
      have ih: "distinct (sensed_cells (run_detector cs d2))"
        "set (sensed_cells (run_detector cs d2)) \<inter> detected_obstacles d2 = {}"
        "distinct (reported_cells (run_detector cs d2))"
        "set (reported_cells (run_detector cs d2)) \<subseteq>
           set (recent_obstacles d2) \<union> set (sensed_cells (run_detector cs d2))"
        by auto
      have run: "run_detector (call # cs) d = Sensed new # run_detector cs d2"
        using Sense pr Inr by (simp add: d2_def)
      show ?thesis
        unfolding run using ih n(1,2) by (auto simp add: r2 t2)
    qed
  next
    case Report
    let ?d = "d\<lparr>recent_obstacles := []\<rparr>"
    have run: "run_detector (call # cs) d = Reported (recent_obstacles d) # run_detector cs ?d"
      using Report by (simp add: get_recent_obstacles_def)
    have "distinct (recent_obstacles ?d)" "set (recent_obstacles ?d) \<subseteq> detected_obstacles ?d"
      by simp_all
    from Cons.IH[OF this]
    have ih: "distinct (sensed_cells (run_detector cs ?d))"
      "set (sensed_cells (run_detector cs ?d)) \<inter> detected_obstacles d = {}"
      "distinct (reported_cells (run_detector cs ?d))"
      "set (reported_cells (run_detector cs ?d)) \<subseteq> set (sensed_cells (run_detector cs ?d))"
      by auto
    show ?thesis
      unfolding run using ih Cons.prems by auto
  qed
qed

subsection \<open>TurnController and the effective command\<close>

text \<open>Every branch of the sensor-pattern chain returns.\<close>

lemma adjust_dispatch_returns: "adjust_dispatch l c r t tc = None \<Longrightarrow> False"
  unfolding adjust_dispatch_def Let_def by (simp split: if_splits)

lemma all_on_keeps_adjusting:
  assumes "l \<noteq> 0" and "c \<noteq> 0" and "r \<noteq> 0"
  shows "execute_line_adjustment [l, c, r] current_time tc =
           Inr (Some (TURN_ADJUST_BASE_SPEED * 0.7, TURN_ADJUST_BASE_SPEED * 0.7), tc)"
  using assms by (simp add: execute_line_adjustment_def adjust_dispatch_def Let_def py_any_def)

lemma effective_forward_no_line:
  "\<not> is_turning tc \<Longrightarrow> \<not> py_any line_detected \<Longrightarrow>
   fst (effective_command tc ''forward'' line_detected) = Some ''turn_left''"
  by (simp add: effective_command_def)

lemma effective_verbatim:
  "\<not> is_turning tc \<Longrightarrow> esp32_command \<in> set protocol_actions \<Longrightarrow>
   fst (effective_command tc esp32_command line_detected) = Some esp32_command \<longleftrightarrow>
     py_any line_detected \<or> esp32_command \<in> set [''turn_left'', ''turn_right'', ''stop'']"
  unfolding protocol_actions_def
  by (cases "py_any line_detected") (auto simp add: effective_command_def)

lemma turn_left_initiates:
  "current_phase tc = NONE \<Longrightarrow>
   \<exists>speeds tc'.
     execute_movement (Some ''turn_left'') line_detected current_time tc = Inr (speeds, tc') \<and>
     current_phase tc' = INITIATE_SPIN \<and> active_command tc' = Some ''turn_left''"
  by (simp add: execute_movement_def initiate_turn_def execute_turn_def
      execute_initial_spin_def Let_def MIN_INITIAL_SPIN_DURATION_def)


section \<open>Claims about the planner\<close>

text \<open>
  Claim C1. On every rectangular grid (the fixed \<open>grid_map\<close> is one, lemma
  \<open>rectangular_grid_map\<close>) and for every pathable start and goal, \<open>dijkstra\<close> returns
  without raising. If the goal can be reached from the start, the result is a
  non-empty path whose first cell is the start and whose last cell is the goal, whose
  consecutive cells are unit cardinal steps, whose cells are all pathable, and no
  path from start to goal is shorter. If the goal cannot be reached, the result is
  the empty path.
\<close>

theorem dijkstra_shortest_path:
  assumes "rectangular grid" and "pathable grid start_node" and "pathable grid end_node"
  shows "\<exists>p. dijkstra grid start_node end_node = Some (Inr p) \<and>
           (if \<exists>q. is_path grid start_node end_node q
            then p \<noteq> [] \<and> hd p = start_node \<and> last p = end_node \<and>
                 successively unit_step p \<and> list_all (pathable grid) p \<and>
                 (\<forall>q. is_path grid start_node end_node q \<longrightarrow> length p \<le> length q)
            else p = [])"
proof -
  from dijkstra_correct[OF assms(1), of start_node end_node] obtain p where
    r: "dijkstra grid start_node end_node = Some (Inr p)" and
    c: "if \<exists>q. is_path grid start_node end_node q
        then is_path grid start_node end_node p \<and>
             (\<forall>q. is_path grid start_node end_node q \<longrightarrow> length p \<le> length q)
        else p = []"
    by blast
  show ?thesis
  proof (cases "\<exists>q. is_path grid start_node end_node q")
    case True
    with c have "is_path grid start_node end_node p"
      and "\<forall>q. is_path grid start_node end_node q \<longrightarrow> length p \<le> length q"
      by simp_all
    with r True show ?thesis
      unfolding is_path_def[of grid start_node end_node p] by auto
  next
    case False
    with c r show ?thesis by simp
  qed
qed

theorem dijkstra_shortest_path_witness:
  "rectangular grid_map \<and> pathable grid_map (2, 0) \<and> pathable grid_map (2, 1) \<and>
   is_path grid_map (2, 0) (2, 1) [(2, 0), (2, 1)] \<and>
   (\<exists>p. dijkstra grid_map (2, 0) (2, 1) = Some (Inr p) \<and> hd p = (2, 0) \<and> last p = (2, 1) \<and>
        successively unit_step p \<and> length p \<le> 2) \<and>
   rectangular [[0, 1, 0]] \<and> pathable [[0, 1, 0]] (0, 0) \<and> pathable [[0, 1, 0]] (0, 2) \<and>
   dijkstra [[0, 1, 0]] (0, 0) (0, 2) = Some (Inr []) \<and>
   \<not> (\<exists>q. is_path [[0, 1, 0]] (0, 0) (0, 2) q)"
proof -
  have r: "rectangular grid_map"
    by (simp add: rectangular_def grid_map_def)
  have a: "pathable grid_map (2, 0)" and b: "pathable grid_map (2, 1)"
    by (simp_all add: pathable_def in_grid_def grid_map_def)
  have q: "is_path grid_map (2, 0) (2, 1) [(2, 0), (2, 1)]"
    using a b by (simp add: is_path_def unit_step_def)
  from q have ex: "\<exists>q. is_path grid_map (2, 0) (2, 1) q" by blast
  from dijkstra_shortest_path[OF r a b] obtain p where
    p: "dijkstra grid_map (2, 0) (2, 1) = Some (Inr p)" "hd p = (2, 0)" "last p = (2, 1)"
      "successively unit_step p"
      "\<forall>q. is_path grid_map (2, 0) (2, 1) q \<longrightarrow> length p \<le> length q"
    unfolding if_P[OF ex] by blast
  from p(5) q have "length p \<le> 2" by fastforce
  with p have 1: "\<exists>p. dijkstra grid_map (2, 0) (2, 1) = Some (Inr p) \<and> hd p = (2, 0) \<and>
             last p = (2, 1) \<and> successively unit_step p \<and> length p \<le> 2"
    by blast
  have r': "rectangular [[0, 1, 0]]"
    by (simp add: rectangular_def)
  have a': "pathable [[0, 1, 0]] (0, 0)" and b': "pathable [[0, 1, 0]] (0, 2)"
    by (simp_all add: pathable_def in_grid_def)
  have e: "dijkstra [[0, 1, 0]] (0, 0) (0, 2) = Some (Inr [])"
    by code_simp
  have 2: "\<not> (\<exists>q. is_path [[0, 1, 0]] (0, 0) (0, 2) q)"
  proof
    assume ex': "\<exists>q. is_path [[0, 1, 0]] (0, 0) (0, 2) q"
    from dijkstra_shortest_path[OF r' a' b'] obtain p where
      "dijkstra [[0, 1, 0]] (0, 0) (0, 2) = Some (Inr p)" "p \<noteq> []"
      unfolding if_P[OF ex'] by blast
    with e show False by simp
  qed
  from r a b q 1 r' a' b' e 2 show ?thesis by blast
qed

text \<open>
  Claim C5 fails as stated: an invalid endpoint does not make \<open>dijkstra\<close> raise. With
  the start (0, 0), which is not pathable on \<open>grid_map\<close>, it returns the empty path,
  the value it also returns when there is no route.
\<close>

theorem invalid_endpoint_counterexample:
  "\<not> pathable grid_map (0, 0) \<and> dijkstra grid_map (0, 0) (2, 0) = Some (Inr [])"
proof -
  have "\<not> pathable grid_map (0, 0)"
    by (simp add: pathable_def in_grid_def grid_map_def)
  then show ?thesis
    by (simp add: dijkstra_start[OF rectangular_grid_map])
qed

text \<open>
  Claim C5, amended. On a rectangular grid, whenever the start or the goal is out of
  bounds or not pathable, \<open>dijkstra\<close> returns the empty path and raises nothing.
\<close>

theorem invalid_endpoint_empty_path:
  assumes "rectangular grid" and "\<not> pathable grid start_node \<or> \<not> pathable grid end_node"
  shows "dijkstra grid start_node end_node = Some (Inr [])"
  using assms(2) by (auto simp add: dijkstra_start[OF assms(1)])

theorem invalid_endpoint_empty_path_witness:
  "rectangular grid_map \<and> \<not> pathable grid_map (15, 4) \<and>
   dijkstra grid_map (2, 0) (15, 4) = Some (Inr [])"
proof -
  have r: "rectangular grid_map"
    by (simp add: rectangular_def grid_map_def)
  have h: "\<not> pathable grid_map (15, 4)"
    by (simp add: pathable_def in_grid_def grid_map_def)
  then have "\<not> pathable grid_map (2, 0) \<or> \<not> pathable grid_map (15, 4)" ..
  from invalid_endpoint_empty_path[OF r this] r h show ?thesis by blast
qed


section \<open>Claims about the tracker and the action translator\<close>

text \<open>
  Claim C2. Take a status message that does not trigger a replan, processed in a state
  where the tracker is consistent (\<open>path_synced\<close>, which holds initially and is kept by
  every handler) or where the path position is the reported position. A command is
  sent, and if the cursor \<open>current_path_index\<close> is strictly larger afterwards, then the
  reported actual position equals the cell of the planned path at the new cursor and
  the path position is that cell. (In a consistent state such a message never moves
  the cursor, lemma \<open>cursor_kept_without_replan\<close>; otherwise the re-alignment of
  \<open>get_action_from_path\<close> may move it forward.)
\<close>

theorem cursor_advance_confirmed:
  assumes "path_synced st \<or>
           current_robot_grid_pos_path (update_belief msg st) = Some (robot_grid_pos msg)"
    and "\<not> replan_due L current_time_ms (update_belief msg st)"
  shows "\<exists>st' cmd. process_status L current_time_ms msg st = Some (st', Some cmd) \<and>
           (current_path_index st < current_path_index st' \<longrightarrow>
              current_robot_grid_pos_actual st' =
                Some (planned_path st' ! nat (current_path_index st')) \<and>
              current_robot_grid_pos_path st' =
                Some (planned_path st' ! nat (current_path_index st')))"
  using assms(1)
proof
  assume "path_synced st"
  from cursor_kept_without_replan[OF this assms(2)] obtain st' cmd where
    "process_status L current_time_ms msg st = Some (st', Some cmd)"
    "current_path_index st' = current_path_index st"
    by blast
  then show ?thesis by auto
next
  assume same: "current_robot_grid_pos_path (update_belief msg st) = Some (robot_grid_pos msg)"
  let ?st1 = "update_belief msg st"
  have r: "replan L current_time_ms ?st1 = Some (Inr ?st1)"
    using assms(2) by (simp add: replan_def)
  from determine_action_effect[of L msg ?st1] obtain a j where
    d: "determine_action L msg ?st1 = Inr (a, ?st1\<lparr>current_path_index := j\<rparr>)"
    by blast
  let ?st2 = "?st1\<lparr>current_path_index := j\<rparr>"
  have p: "process_status L current_time_ms msg st =
           Some (snd (goal_check (a, ?st2)),
                 Some (command_to_webots (fst (goal_check (a, ?st2))) (snd (goal_check (a, ?st2)))))"
    by (rule process_status_steps[OF r d])
  have "current_robot_grid_pos_actual (snd (goal_check (a, ?st2))) =
          Some (planned_path (snd (goal_check (a, ?st2))) !
                nat (current_path_index (snd (goal_check (a, ?st2))))) \<and>
        current_robot_grid_pos_path (snd (goal_check (a, ?st2))) =
          Some (planned_path (snd (goal_check (a, ?st2))) !
                nat (current_path_index (snd (goal_check (a, ?st2)))))"
    if less: "current_path_index st < current_path_index (snd (goal_check (a, ?st2)))"
  proof -
    from less have "current_path_index st < j"
      by (simp add: goal_check_def split: if_splits)
    then have "current_path_index ?st2 \<noteq> current_path_index ?st1"
      by (simp add: update_belief_fields)
    from determine_action_realign[OF d this, simplified]
    have pp: "current_robot_grid_pos_path ?st1 = Some (planned_path ?st1 ! nat j)"
      and pg: "current_robot_grid_pos_path ?st1 \<noteq> goal_grid_pos ?st1"
      by blast+
    from pg same have "current_robot_grid_pos_actual ?st2 \<noteq> goal_grid_pos ?st2"
      by (simp add: update_belief_fields)
    then have gc: "goal_check (a, ?st2) = (a, ?st2)"
      by (simp add: goal_check_def)
    show ?thesis
      unfolding gc using pp same by (simp add: update_belief_fields)
  qed
  with p show ?thesis by blast
qed

theorem cursor_advance_confirmed_witness:
  "path_synced tracking_state \<and>
   \<not> replan_due real_lib 500 (update_belief (status_at (2, 0) (2, 1)) tracking_state) \<and>
   (\<exists>st' cmd. process_status real_lib 500 (status_at (2, 0) (2, 1)) tracking_state =
                Some (st', Some cmd) \<and>
              (current_path_index tracking_state < current_path_index st' \<longrightarrow>
                 current_robot_grid_pos_actual st' =
                   Some (planned_path st' ! nat (current_path_index st')) \<and>
                 current_robot_grid_pos_path st' =
                   Some (planned_path st' ! nat (current_path_index st')))) \<and>
   current_robot_grid_pos_path
     (update_belief (status_at (2, 1) (2, 2))
        (tracking_state\<lparr>current_robot_grid_pos_actual := Some (2, 1),
           current_robot_grid_pos_path := Some (2, 1), goal_grid_pos := Some (2, 2),
           planned_path := [(2, 0), (2, 1), (2, 2)]\<rparr>)) =
     Some (robot_grid_pos (status_at (2, 1) (2, 2))) \<and>
   \<not> replan_due real_lib 500
     (update_belief (status_at (2, 1) (2, 2))
        (tracking_state\<lparr>current_robot_grid_pos_actual := Some (2, 1),
           current_robot_grid_pos_path := Some (2, 1), goal_grid_pos := Some (2, 2),
           planned_path := [(2, 0), (2, 1), (2, 2)]\<rparr>)) \<and>
   (\<exists>st' cmd. process_status real_lib 500 (status_at (2, 1) (2, 2))
                (tracking_state\<lparr>current_robot_grid_pos_actual := Some (2, 1),
                   current_robot_grid_pos_path := Some (2, 1), goal_grid_pos := Some (2, 2),
                   planned_path := [(2, 0), (2, 1), (2, 2)]\<rparr>) =
                Some (st', Some cmd) \<and>
              current_path_index st' = 1 \<and>
              current_robot_grid_pos_actual st' =
                Some (planned_path st' ! nat (current_path_index st')) \<and>
              current_robot_grid_pos_path st' =
                Some (planned_path st' ! nat (current_path_index st')))"
proof -
  let ?s2 = "tracking_state\<lparr>current_robot_grid_pos_actual := Some (2, 1),
           current_robot_grid_pos_path := Some (2, 1), goal_grid_pos := Some (2, 2),
           planned_path := [(2, 0), (2, 1), (2, 2)]\<rparr>"
  have s: "path_synced tracking_state"
    by (simp add: path_synced_def tracking_state_def)
  have n: "\<not> replan_due real_lib 500 (update_belief (status_at (2, 0) (2, 1)) tracking_state)"
    by (simp add: replan_due_def real_lib_def REPLAN_INTERVAL_MS_def update_belief_def
        Let_def tracking_state_def status_at_def)
  note w1 = cursor_advance_confirmed[OF disjI1[OF s] n]
  have h: "current_robot_grid_pos_path (update_belief (status_at (2, 1) (2, 2)) ?s2) =
           Some (robot_grid_pos (status_at (2, 1) (2, 2)))"
    by (simp add: update_belief_fields tracking_state_def status_at_def)
  have n2: "\<not> replan_due real_lib 500 (update_belief (status_at (2, 1) (2, 2)) ?s2)"
    by (simp add: replan_due_def real_lib_def REPLAN_INTERVAL_MS_def update_belief_def
        Let_def tracking_state_def status_at_def)
  from cursor_advance_confirmed[OF disjI2[OF h] n2] obtain st' cmd where
    p: "process_status real_lib 500 (status_at (2, 1) (2, 2)) ?s2 = Some (st', Some cmd)"
    and c: "current_path_index ?s2 < current_path_index st' \<longrightarrow>
              current_robot_grid_pos_actual st' =
                Some (planned_path st' ! nat (current_path_index st')) \<and>
              current_robot_grid_pos_path st' =
                Some (planned_path st' ! nat (current_path_index st'))"
    by blast
  from p realign_example have i: "current_path_index st' = 1"
    by auto
  then have "current_path_index ?s2 < current_path_index st'"
    by (simp add: tracking_state_def)
  with c have "current_robot_grid_pos_actual st' =
                Some (planned_path st' ! nat (current_path_index st')) \<and>
              current_robot_grid_pos_path st' =
                Some (planned_path st' ! nat (current_path_index st'))" ..
  with p i have w2: "\<exists>st' cmd. process_status real_lib 500 (status_at (2, 1) (2, 2)) ?s2 =
                Some (st', Some cmd) \<and>
              current_path_index st' = 1 \<and>
              current_robot_grid_pos_actual st' =
                Some (planned_path st' ! nat (current_path_index st')) \<and>
              current_robot_grid_pos_path st' =
                Some (planned_path st' ! nat (current_path_index st'))"
    by blast
  show ?thesis
    by (intro conjI s n w1 h n2 w2)
qed

text \<open>
  Claim C4 fails as stated: when a triggered replan gets the empty path from
  \<open>dijkstra\<close>, the stored planned path is not kept. From \<open>tracking_state\<close>, whose
  planned path is [(2, 0), (2, 1)], the status at time 2000 that reports the robot on the
  cell (1, 0), which is not pathable, triggers a replan by the interval; \<open>dijkstra\<close>
  returns the empty path and the planned path is empty afterwards.
\<close>

theorem empty_plan_counterexample:
  "replan_due real_lib 2000 (update_belief (status_at (1, 0) (2, 1)) tracking_state) \<and>
   dijkstra grid_map (1, 0) (2, 1) = Some (Inr []) \<and>
   planned_path tracking_state = [(2, 0), (2, 1)] \<and>
   process_status real_lib 2000 (status_at (1, 0) (2, 1)) tracking_state =
   Some (\<lparr>current_robot_grid_pos_actual = Some (1, 0),
          current_robot_grid_pos_path = Some (2, 0), goal_grid_pos = Some (2, 1),
          planned_path = [], current_path_index = 0, path_needs_replan = True,
          last_replan_time = 0, conn = True\<rparr>,
         Some \<lparr>action = ''stop'', path = [],
               robot_pos_on_path_esp_thinks = Some (2, 0), current_path_idx_esp = 0\<rparr>)"
proof -
  let ?st1 = "update_belief (status_at (1, 0) (2, 1)) tracking_state"
  have u: "?st1 = \<lparr>current_robot_grid_pos_actual = Some (1, 0),
      current_robot_grid_pos_path = Some (2, 0), goal_grid_pos = Some (2, 1),
      planned_path = [(2, 0), (2, 1)], current_path_index = 0, path_needs_replan = False,
      last_replan_time = 0, conn = True\<rparr>"
    by (simp add: update_belief_def status_at_def tracking_state_def Let_def)
  have due: "replan_due real_lib 2000 ?st1"
    unfolding u by (simp add: replan_due_def real_lib_def REPLAN_INTERVAL_MS_def)
  have "\<not> pathable grid_map (1, 0)"
    by (simp add: pathable_def in_grid_def grid_map_def)
  then have e: "dijkstra grid_map (1, 0) (2, 1) = Some (Inr [])"
    by (simp add: dijkstra_start[OF rectangular_grid_map])
  have r: "replan real_lib 2000 ?st1 =
      Some (Inr (?st1\<lparr>planned_path := [], path_needs_replan := True\<rparr>))"
    using due e unfolding u by (simp add: replan_def adopt_path_def)
  have d: "determine_action real_lib (status_at (1, 0) (2, 1))
             (?st1\<lparr>planned_path := [], path_needs_replan := True\<rparr>) =
           Inr (''stop'', ?st1\<lparr>planned_path := [], path_needs_replan := True\<rparr>)"
    by (simp add: determine_action_def)
  have p: "process_status real_lib 2000 (status_at (1, 0) (2, 1)) tracking_state =
   Some (\<lparr>current_robot_grid_pos_actual = Some (1, 0),
          current_robot_grid_pos_path = Some (2, 0), goal_grid_pos = Some (2, 1),
          planned_path = [], current_path_index = 0, path_needs_replan = True,
          last_replan_time = 0, conn = True\<rparr>,
         Some \<lparr>action = ''stop'', path = [],
               robot_pos_on_path_esp_thinks = Some (2, 0), current_path_idx_esp = 0\<rparr>)"
    unfolding process_status_steps[OF r d] u
    by (simp add: goal_check_def command_to_webots_def)
  have "planned_path tracking_state = [(2, 0), (2, 1)]"
    by (simp add: tracking_state_def)
  with due e p show ?thesis by (intro conjI)
qed

text \<open>
  Claim C4, amended. When a replan is triggered and \<open>dijkstra\<close> returns the empty
  path, the stored planned path is cleared and a \<open>stop\<close> command with the empty path is
  sent; the cursor \<open>current_path_index\<close> keeps its value and the path position keeps
  the value it has after the belief update; the needs-replan flag is set, so that the
  next message replans again, unless the reported position equals the goal.
\<close>

theorem empty_plan_clears_path:
  assumes "replan_due L current_time_ms (update_belief msg st)"
    and "dijkstra grid_map (robot_grid_pos msg) (status_goal_grid_pos msg) = Some (Inr [])"
  shows "\<exists>st' cmd. process_status L current_time_ms msg st = Some (st', Some cmd) \<and>
           action cmd = ''stop'' \<and> path cmd = [] \<and>
           planned_path st' = [] \<and>
           current_path_index st' = current_path_index st \<and>
           current_robot_grid_pos_path st' = current_robot_grid_pos_path (update_belief msg st) \<and>
           path_needs_replan st' = (robot_grid_pos msg \<noteq> status_goal_grid_pos msg)"
proof -
  let ?st1 = "update_belief msg st"
  let ?st2 = "?st1\<lparr>planned_path := [], path_needs_replan := True\<rparr>"
  have r: "replan L current_time_ms ?st1 = Some (Inr ?st2)"
    using assms by (simp add: replan_def update_belief_fields adopt_path_def)
  have d: "determine_action L msg ?st2 = Inr (''stop'', ?st2)"
    by (simp add: determine_action_def)
  show ?thesis
    unfolding process_status_steps[OF r d]
    by (simp add: goal_check_def command_to_webots_def update_belief_fields)
qed

theorem empty_plan_clears_path_witness:
  "replan_due real_lib 2000 (update_belief (status_at (1, 0) (2, 1)) tracking_state) \<and>
   dijkstra grid_map (robot_grid_pos (status_at (1, 0) (2, 1)))
     (status_goal_grid_pos (status_at (1, 0) (2, 1))) = Some (Inr []) \<and>
   (\<exists>st' cmd. process_status real_lib 2000 (status_at (1, 0) (2, 1)) tracking_state =
                Some (st', Some cmd) \<and>
              action cmd = ''stop'' \<and> path cmd = [] \<and> planned_path st' = [] \<and>
              current_path_index st' = 0 \<and> path_needs_replan st')"
proof -
  have due: "replan_due real_lib 2000 (update_belief (status_at (1, 0) (2, 1)) tracking_state)"
    by (simp add: replan_due_def real_lib_def REPLAN_INTERVAL_MS_def update_belief_fields
        tracking_state_def)
  have "\<not> pathable grid_map (1, 0)"
    by (simp add: pathable_def in_grid_def grid_map_def)
  then have e: "dijkstra grid_map (robot_grid_pos (status_at (1, 0) (2, 1)))
     (status_goal_grid_pos (status_at (1, 0) (2, 1))) = Some (Inr [])"
    by (simp add: dijkstra_start[OF rectangular_grid_map] status_at_def)
  from empty_plan_clears_path[OF due e] obtain st' cmd where
    p: "process_status real_lib 2000 (status_at (1, 0) (2, 1)) tracking_state =
          Some (st', Some cmd)"
      "action cmd = ''stop''" "path cmd = []" "planned_path st' = []"
    and i: "current_path_index st' = current_path_index tracking_state"
    and f: "path_needs_replan st' =
          (robot_grid_pos (status_at (1, 0) (2, 1)) \<noteq>
           status_goal_grid_pos (status_at (1, 0) (2, 1)))"
    by blast
  from i have i0: "current_path_index st' = 0" by (simp add: tracking_state_def)
  from f have f1: "path_needs_replan st'" by (simp add: status_at_def)
  from p i0 f1
  have "\<exists>st' cmd. process_status real_lib 2000 (status_at (1, 0) (2, 1)) tracking_state =
                Some (st', Some cmd) \<and>
              action cmd = ''stop'' \<and> path cmd = [] \<and> planned_path st' = [] \<and>
              current_path_index st' = 0 \<and> path_needs_replan st'"
    by blast
  with due e show ?thesis by (intro conjI)
qed

text \<open>
  Claim C6. For every status message whose reported position equals its goal, and
  whatever the state of the planning loop before, the command sent back has the action
  \<open>stop\<close> and the empty path, the stored planned path is cleared and the needs-replan
  flag is off.
\<close>

theorem goal_reached_sends_stop:
  assumes "robot_grid_pos msg = status_goal_grid_pos msg"
  shows "\<exists>st'. process_status L current_time_ms msg st =
                 Some (st', Some \<lparr>action = ''stop'', path = [],
                                  robot_pos_on_path_esp_thinks = current_robot_grid_pos_path st',
                                  current_path_idx_esp = current_path_index st'\<rparr>) \<and>
               planned_path st' = [] \<and> \<not> path_needs_replan st'"
proof -
  from replan_total[of L current_time_ms "update_belief msg st"] obtain st2 where
    r: "replan L current_time_ms (update_belief msg st) = Some (Inr st2)"
    and a2: "current_robot_grid_pos_actual st2 = Some (robot_grid_pos msg)"
    and g2: "goal_grid_pos st2 = Some (status_goal_grid_pos msg)"
    by (auto simp add: update_belief_fields)
  from determine_action_effect[of L msg st2] obtain a j where
    d: "determine_action L msg st2 = Inr (a, st2\<lparr>current_path_index := j\<rparr>)"
    by blast
  have gc: "goal_check (a, st2\<lparr>current_path_index := j\<rparr>) =
            (''stop'', st2\<lparr>current_path_index := j, planned_path := [],
                            path_needs_replan := False\<rparr>)"
    using a2 g2 assms by (simp add: goal_check_def)
  show ?thesis
    unfolding process_status_steps[OF r d] gc
    by (simp add: command_to_webots_def)
qed

theorem goal_reached_sends_stop_witness:
  "robot_grid_pos \<lparr>robot_grid_pos = (14, 4), status_goal_grid_pos = (14, 4),
                   theta_rad = 0::real, sensors_binary = [0, 1, 0]\<rparr> =
   status_goal_grid_pos \<lparr>robot_grid_pos = (14, 4), status_goal_grid_pos = (14, 4),
                   theta_rad = 0::real, sensors_binary = [0, 1, 0]\<rparr> \<and>
   (\<exists>st'. process_status real_lib 0
            \<lparr>robot_grid_pos = (14, 4), status_goal_grid_pos = (14, 4),
             theta_rad = 0::real, sensors_binary = [0, 1, 0]\<rparr> initial_pstate =
           Some (st', Some \<lparr>action = ''stop'', path = [],
                            robot_pos_on_path_esp_thinks = current_robot_grid_pos_path st',
                            current_path_idx_esp = current_path_index st'\<rparr>) \<and>
         planned_path st' = [] \<and> \<not> path_needs_replan st')"
proof -
  have h: "robot_grid_pos \<lparr>robot_grid_pos = (14, 4), status_goal_grid_pos = (14, 4),
                   theta_rad = 0::real, sensors_binary = [0, 1, 0]\<rparr> =
   status_goal_grid_pos \<lparr>robot_grid_pos = (14, 4), status_goal_grid_pos = (14, 4),
                   theta_rad = 0::real, sensors_binary = [0, 1, 0]\<rparr>"
    by simp
  show ?thesis
    by (rule conjI[OF h goal_reached_sends_stop[OF h]])
qed

text \<open>
  Claim C7. An empty read (the client disconnected) clears the actual position, the
  path position and the planned path and sets the needs-replan flag; the goal, the
  cursor and the time of the last replan keep their values (the grid is a constant, and
  the planning side holds no obstacle set). The next status message after the
  reconnection triggers a replan.
\<close>

theorem disconnect_resets_session:
  "current_robot_grid_pos_actual (on_disconnect st) = None \<and>
   current_robot_grid_pos_path (on_disconnect st) = None \<and>
   planned_path (on_disconnect st) = [] \<and>
   path_needs_replan (on_disconnect st) \<and>
   goal_grid_pos (on_disconnect st) = goal_grid_pos st \<and>
   current_path_index (on_disconnect st) = current_path_index st \<and>
   last_replan_time (on_disconnect st) = last_replan_time st \<and>
   replan_due L now (update_belief msg (on_accept (on_disconnect st)))"
  by (simp add: on_disconnect_def on_accept_def replan_due_def update_belief_def Let_def)

text \<open>
  Claim C8. When the cursor points at a cell \<open>cur\<close> of the planned path that is not the
  goal, the next cell \<open>nxt\<close> is a unit cardinal step away and the translator is asked
  for \<open>cur\<close>, its answer is decided by the angular error \<open>e\<close> of the heading of the step
  (+col 0, -col pi, +row pi/2, -row -pi/2) against \<open>theta\<close>, normalised through
  \<open>atan2(sin, cos)\<close>: \<open>turn_left\<close> if \<open>|e|\<close> exceeds \<open>radians(40)\<close> and \<open>e\<close> is positive,
  \<open>turn_right\<close> if \<open>|e|\<close> exceeds it and \<open>e\<close> is not positive (beyond the threshold, that is
  negative), \<open>forward\<close> otherwise. The state is left as it is. This holds for every
  implementation of the float operations.
\<close>

theorem action_translator_decision:
  assumes "0 \<le> current_path_index st"
    and "current_path_index st < int (length (planned_path st)) - 1"
    and "cur = planned_path st ! nat (current_path_index st)"
    and "nxt = planned_path st ! nat (current_path_index st + 1)"
    and "Some cur \<noteq> goal_grid_pos st"
    and "unit_step cur nxt"
  shows "get_action_from_path L st (Some cur) theta sensors =
           ((let e = angular_error L (step_heading L cur nxt) theta in
             if m_radians L (m_float L 40) < \<bar>e\<bar> \<and> m_float L 0 < e then ''turn_left''
             else if m_radians L (m_float L 40) < \<bar>e\<bar> then ''turn_right''
             else ''forward'', Some cur), st)"
proof -
  from assms(1,2) have ne: "planned_path st \<noteq> []" by auto
  show ?thesis
    using assms(1,2,5) ne
    by (simp add: get_action_from_path_def Let_def assms(3)[symmetric] assms(4)[symmetric]
        segment_action_unit_step[OF assms(6)])
qed

theorem action_translator_decision_witness:
  "unit_step (2, 0) (2, 1) \<and>
   get_action_from_path real_lib
     (initial_pstate\<lparr>planned_path := [(2, 0), (2, 1)], goal_grid_pos := Some (2, 1)\<rparr>)
     (Some (2, 0)) 0 [0, 1, 0] =
   ((''forward'', Some (2, 0)),
    initial_pstate\<lparr>planned_path := [(2, 0), (2, 1)], goal_grid_pos := Some (2, 1)\<rparr>) \<and>
   unit_step (2, 0) (3, 0) \<and>
   get_action_from_path real_lib
     (initial_pstate\<lparr>planned_path := [(2, 0), (3, 0)], goal_grid_pos := Some (3, 0)\<rparr>)
     (Some (2, 0)) 0 [0, 1, 0] =
   ((''turn_left'', Some (2, 0)),
    initial_pstate\<lparr>planned_path := [(2, 0), (3, 0)], goal_grid_pos := Some (3, 0)\<rparr>) \<and>
   unit_step (3, 0) (2, 0) \<and>
   get_action_from_path real_lib
     (initial_pstate\<lparr>planned_path := [(3, 0), (2, 0)], goal_grid_pos := Some (2, 0)\<rparr>)
     (Some (3, 0)) 0 [0, 1, 0] =
   ((''turn_right'', Some (3, 0)),
    initial_pstate\<lparr>planned_path := [(3, 0), (2, 0)], goal_grid_pos := Some (2, 0)\<rparr>)"
proof -
  have u1: "unit_step (2, 0) (2, 1)" and u2: "unit_step (2, 0) (3, 0)"
    and u3: "unit_step (3, 0) (2, 0)"
    by (simp_all add: unit_step_def)
  have thr: "40 * pi / 180 < pi / 2" "\<not> 40 * pi / 180 < (0::real)"
    using pi_gt_zero by simp_all
  have 1: "get_action_from_path real_lib
     (initial_pstate\<lparr>planned_path := [(2, 0), (2, 1)], goal_grid_pos := Some (2, 1)\<rparr>)
     (Some (2, 0)) 0 [0, 1, 0] =
   ((''forward'', Some (2, 0)),
    initial_pstate\<lparr>planned_path := [(2, 0), (2, 1)], goal_grid_pos := Some (2, 1)\<rparr>)"
    using action_translator_decision[of
        "initial_pstate\<lparr>planned_path := [(2, 0), (2, 1)], goal_grid_pos := Some (2, 1)\<rparr>"
        "(2, 0)" "(2, 1)" real_lib 0 "[0, 1, 0]"] u1 thr
    by (simp add: initial_pstate_def angular_error_def normalize_angle_def step_heading_def
        real_lib_def real_atan2_def)
  have 2: "get_action_from_path real_lib
     (initial_pstate\<lparr>planned_path := [(2, 0), (3, 0)], goal_grid_pos := Some (3, 0)\<rparr>)
     (Some (2, 0)) 0 [0, 1, 0] =
   ((''turn_left'', Some (2, 0)),
    initial_pstate\<lparr>planned_path := [(2, 0), (3, 0)], goal_grid_pos := Some (3, 0)\<rparr>)"
    using action_translator_decision[of
        "initial_pstate\<lparr>planned_path := [(2, 0), (3, 0)], goal_grid_pos := Some (3, 0)\<rparr>"
        "(2, 0)" "(3, 0)" real_lib 0 "[0, 1, 0]"] u2 thr
    by (simp add: initial_pstate_def angular_error_def normalize_angle_def step_heading_def
        real_lib_def real_atan2_def)
  have 3: "get_action_from_path real_lib
     (initial_pstate\<lparr>planned_path := [(3, 0), (2, 0)], goal_grid_pos := Some (2, 0)\<rparr>)
     (Some (3, 0)) 0 [0, 1, 0] =
   ((''turn_right'', Some (3, 0)),
    initial_pstate\<lparr>planned_path := [(3, 0), (2, 0)], goal_grid_pos := Some (2, 0)\<rparr>)"
    using action_translator_decision[of
        "initial_pstate\<lparr>planned_path := [(3, 0), (2, 0)], goal_grid_pos := Some (2, 0)\<rparr>"
        "(3, 0)" "(2, 0)" real_lib 0 "[0, 1, 0]"] u3 thr
    by (simp add: initial_pstate_def angular_error_def normalize_angle_def step_heading_def
        real_lib_def real_atan2_def)
  from u1 1 u2 2 u3 3 show ?thesis by blast
qed


section \<open>Claims about the motion side\<close>

text \<open>
  Claim C3 does not hold of the code. With all three sensors on the line, the
  adjustment step at time 100 of a phase started at time 0 (well past
  \<open>MAX_ADJUST_DURATION\<close>) returns the speeds (0.84, 0.84) and leaves the phase
  \<open>ADJUSTING_ON_LINE\<close>: every branch of the sensor-pattern chain returns (lemma
  \<open>adjust_dispatch_returns\<close>), so the timeout check after the chain is never reached.
\<close>

theorem adjust_timeout_never_reached:
  "MAX_ADJUST_DURATION < 100 - phase_start_time
      \<lparr>current_phase = ADJUSTING_ON_LINE, active_command = Some ''turn_left'',
       phase_start_time = 0\<rparr> \<and>
   execute_line_adjustment [1, 1, 1] 100
      \<lparr>current_phase = ADJUSTING_ON_LINE, active_command = Some ''turn_left'',
       phase_start_time = 0\<rparr> =
   Inr (Some (0.84, 0.84),
      \<lparr>current_phase = ADJUSTING_ON_LINE, active_command = Some ''turn_left'',
       phase_start_time = 0\<rparr>)"
  by (simp add: execute_line_adjustment_def adjust_dispatch_def Let_def py_any_def
      MAX_ADJUST_DURATION_def TURN_ADJUST_BASE_SPEED_def FORWARD_SPEED_def)

text \<open>
  Claim C9. In every run of the motion loop's detector calls, starting with a new
  detector, no grid cell occurs twice in the batches returned by
  \<open>process_sensor_readings\<close>, and no grid cell occurs twice in the batches returned by
  \<open>get_recent_obstacles\<close>, neither within a batch nor in two batches.
\<close>

theorem obstacle_reported_once:
  "distinct (sensed_cells (run_detector cs new_obstacle_detector)) \<and>
   distinct (reported_cells (run_detector cs new_obstacle_detector))"
proof -
  have "distinct (recent_obstacles new_obstacle_detector)"
    "set (recent_obstacles new_obstacle_detector) \<subseteq> detected_obstacles new_obstacle_detector"
    by (simp_all add: new_obstacle_detector_def)
  from run_detector_distinct[OF this, of cs] show ?thesis by blast
qed

text \<open>
  Claim C10. On a tick where no turn is in progress: if the remote command is
  \<open>forward\<close> and no line sensor sees the line, the effective command is \<open>turn_left\<close>, and
  executing it starts a turn (phase \<open>INITIATE_SPIN\<close>, active command \<open>turn_left\<close>); and a
  remote command of the protocol is the effective command exactly when a line is seen
  or the command is a turn or \<open>stop\<close>.
\<close>

theorem forward_without_line_turns_left:
  assumes "\<not> is_turning tc"
  shows "(esp32_command = ''forward'' \<and> \<not> py_any line_detected \<longrightarrow>
            fst (effective_command tc esp32_command line_detected) = Some ''turn_left'' \<and>
            (\<exists>speeds tc'.
               execute_movement (Some ''turn_left'') line_detected current_time tc =
                 Inr (speeds, tc') \<and>
               current_phase tc' = INITIATE_SPIN \<and> active_command tc' = Some ''turn_left'')) \<and>
         (esp32_command \<in> set protocol_actions \<longrightarrow>
            (fst (effective_command tc esp32_command line_detected) = Some esp32_command \<longleftrightarrow>
             py_any line_detected \<or>
             esp32_command \<in> set [''turn_left'', ''turn_right'', ''stop'']))"
proof (intro conjI impI)
  assume h: "esp32_command = ''forward'' \<and> \<not> py_any line_detected"
  then have e: "esp32_command = ''forward''" and n: "\<not> py_any line_detected" by simp_all
  show "fst (effective_command tc esp32_command line_detected) = Some ''turn_left''"
    unfolding e by (rule effective_forward_no_line[OF assms n])
  from assms have "current_phase tc = NONE" by (simp add: is_turning_def)
  then show "\<exists>speeds tc'.
               execute_movement (Some ''turn_left'') line_detected current_time tc =
                 Inr (speeds, tc') \<and>
               current_phase tc' = INITIATE_SPIN \<and> active_command tc' = Some ''turn_left''"
    by (rule turn_left_initiates)
next
  assume "esp32_command \<in> set protocol_actions"
  with assms show "fst (effective_command tc esp32_command line_detected) = Some esp32_command \<longleftrightarrow>
             py_any line_detected \<or>
             esp32_command \<in> set [''turn_left'', ''turn_right'', ''stop'']"
    by (rule effective_verbatim)
qed

theorem forward_without_line_turns_left_witness:
  "\<not> is_turning new_turn_controller \<and> \<not> py_any [0, 0, 0] \<and>
   fst (effective_command new_turn_controller ''forward'' [0, 0, 0]) = Some ''turn_left'' \<and>
   ''forward'' \<in> set protocol_actions \<and> py_any [0, 1, 0] \<and>
   fst (effective_command new_turn_controller ''forward'' [0, 1, 0]) = Some ''forward''"
proof -
  have t: "\<not> is_turning new_turn_controller"
    by (simp add: is_turning_def new_turn_controller_def)
  have n: "\<not> py_any [0, 0, 0]" and y: "py_any [0, 1, 0]"
    by (simp_all add: py_any_def)
  have f: "''forward'' \<in> set protocol_actions"
    by (simp add: protocol_actions_def)
  note w1 = forward_without_line_turns_left[OF t, of "''forward''" "[0, 0, 0]" 0]
  note w2 = forward_without_line_turns_left[OF t, of "''forward''" "[0, 1, 0]" 0]
  have 1: "fst (effective_command new_turn_controller ''forward'' [0, 0, 0]) = Some ''turn_left''"
    by (rule w1[THEN conjunct1, THEN mp, OF conjI[OF refl n], THEN conjunct1])
  have 2: "fst (effective_command new_turn_controller ''forward'' [0, 1, 0]) = Some ''forward''"
    by (rule w2[THEN conjunct2, THEN mp, OF f, THEN iffD2, OF disjI1[OF y]])
  show ?thesis
    by (intro conjI) (rule t n 1 f y 2)+
qed

end
